theory Spec2Isabelle
  imports Main "HOL-Library.Word"
begin

section \<open>Frame codec (\<^verbatim>\<open>MeshtasticProtocolParser\<close>, \<^verbatim>\<open>multi_client_proxy.py\<close>)\<close>

text \<open>
  Python \<^verbatim>\<open>bytes\<close> and \<^verbatim>\<open>bytearray\<close> values are lists of 8-bit words. A Python
  slice \<^verbatim>\<open>xs[i:j]\<close> with \<open>0 \<le> i \<le> j\<close> never raises: it is cut at the end of the list.
\<close>

type_synonym byte = "8 word"

text \<open>
  A Python \<^verbatim>\<open>str\<close> is a list of Unicode code points; \<open>lit\<close> writes an ASCII literal.
\<close>

type_synonym pystr = "nat list"

definition lit :: "string \<Rightarrow> pystr" where
  "lit s = map of_char s"

datatype error = StructError | UnicodeEncodeError | ValueError

definition py_slice :: "'a list \<Rightarrow> nat \<Rightarrow> nat \<Rightarrow> 'a list" where
  "py_slice xs i j = take (j - i) (drop i xs)"

definition MESHTASTIC_MAGIC :: "byte list" where
  "MESHTASTIC_MAGIC = [0x94, 0xC3]"

definition HEADER_SIZE :: nat where
  "HEADER_SIZE = 4"

text \<open>
  \<^verbatim>\<open>struct.pack('>H', n)\<close>: two bytes, most significant first; \<^verbatim>\<open>struct.error\<close> when
  \<open>n\<close> does not fit 16 bits. \<^verbatim>\<open>struct.unpack('>H', b)[0]\<close> on the two bytes
  \<^verbatim>\<open>buffer[2:4]\<close> (the loop guard makes sure both exist).
\<close>

definition pack_H :: "nat \<Rightarrow> error + byte list" where
  "pack_H n = (if n \<le> 65535 then Inr [of_nat (n div 256), of_nat (n mod 256)]
               else Inl StructError)"

definition unpack_H :: "byte \<Rightarrow> byte \<Rightarrow> nat" where
  "unpack_H hi lo = unat hi * 256 + unat lo"

text \<open>
  The framing idiom of \<^verbatim>\<open>_send_want_config\<close> and \<^verbatim>\<open>send_ai_response\<close>:
  \<^verbatim>\<open>header = MESHTASTIC_MAGIC + struct.pack('>H', len(payload)); frame = header + payload\<close>.
\<close>

definition build_frame :: "byte list \<Rightarrow> error + byte list" where
  "build_frame payload =
     (case pack_H (length payload) of
        Inl e \<Rightarrow> Inl e
      | Inr len_bytes \<Rightarrow> Inr ((MESHTASTIC_MAGIC @ len_bytes) @ payload))"

text \<open>
  The search \<^verbatim>\<open>for i in range(len(self.buffer) - 1): if self.buffer[i:i+2] == MAGIC: ... break\<close>;
  \<open>None\<close> stands for \<^verbatim>\<open>magic_pos == -1\<close>.
\<close>

definition find_magic :: "byte list \<Rightarrow> nat option" where
  "find_magic buffer =
     List.find (\<lambda>i. py_slice buffer i (i + 2) = MESHTASTIC_MAGIC) [0..<length buffer - 1]"

text \<open>
  The \<^verbatim>\<open>while\<close> loop of \<^verbatim>\<open>add_data\<close>, on the pair of \<^verbatim>\<open>self.buffer\<close> and the list
  \<^verbatim>\<open>frames\<close>; it returns both when the loop is left.
\<close>

function add_data_loop ::
  "byte list \<Rightarrow> (byte list \<times> byte list) list \<Rightarrow> (byte list \<times> byte list) list \<times> byte list"
where
  "add_data_loop buffer frames =
     (if length buffer \<ge> HEADER_SIZE then
        (if py_slice buffer 0 2 \<noteq> MESHTASTIC_MAGIC then
           (case find_magic buffer of
              None \<Rightarrow>
                (frames,
                 if buffer \<noteq> [] \<and> last buffer = MESHTASTIC_MAGIC ! 0 then [last buffer] else [])
            | Some magic_pos \<Rightarrow> add_data_loop (drop magic_pos buffer) frames)
         else
           (let len = unpack_H (buffer ! 2) (buffer ! 3);
                total_size = HEADER_SIZE + len
            in if length buffer < total_size then (frames, buffer)
               else add_data_loop (drop total_size buffer)
                      (frames @ [(py_slice buffer 0 total_size, py_slice buffer HEADER_SIZE total_size)])))
      else (frames, buffer))"
  by pat_completeness auto
termination
proof (relation "measure (\<lambda>(buffer, frames). length buffer)")
  show "wf (measure (\<lambda>(buffer, frames). length buffer))" by simp
next
  fix buffer :: "byte list" and frames :: "(byte list \<times> byte list) list" and magic_pos
  assume len: "HEADER_SIZE \<le> length buffer"
    and nm: "py_slice buffer 0 2 \<noteq> MESHTASTIC_MAGIC"
    and fm: "find_magic buffer = Some magic_pos"
  from fm have at: "py_slice buffer magic_pos (magic_pos + 2) = MESHTASTIC_MAGIC"
    unfolding find_magic_def find_Some_iff by (auto simp: nth_upt)
  have "magic_pos \<noteq> 0"
  proof
    assume "magic_pos = 0"
    with at have "py_slice buffer 0 2 = MESHTASTIC_MAGIC" by (simp add: numeral_2_eq_2)
    with nm show False by simp
  qed
  with len show "((drop magic_pos buffer, frames), (buffer, frames))
      \<in> measure (\<lambda>(buffer, frames). length buffer)"
    by (simp add: HEADER_SIZE_def)
next
  fix buffer :: "byte list" and frames :: "(byte list \<times> byte list) list" and x xa
  assume "HEADER_SIZE \<le> length buffer"
    and "x = unpack_H (buffer ! 2) (buffer ! 3)"
    and "xa = HEADER_SIZE + x"
    and "\<not> length buffer < xa"
  then show "((drop xa buffer,
        frames @ [(py_slice buffer 0 xa, py_slice buffer HEADER_SIZE xa)]), (buffer, frames))
      \<in> measure (\<lambda>(buffer, frames). length buffer)"
    by (simp add: HEADER_SIZE_def)
qed

declare add_data_loop.simps [simp del]

record parser =
  buffer :: "byte list"

definition new_parser :: parser where
  "new_parser = \<lparr>buffer = []\<rparr>"

definition add_data :: "parser \<Rightarrow> byte list \<Rightarrow> (byte list \<times> byte list) list \<times> parser" where
  "add_data p data =
     (let (frames, buf) = add_data_loop (buffer p @ data) []
      in (frames, p\<lparr>buffer := buf\<rparr>))"

text \<open>
  A sequence of \<^verbatim>\<open>add_data\<close> calls on one parser object, the frames of all calls
  concatenated in order (used to state incremental parsing; not a function of the source).
\<close>

fun add_data_chunks :: "parser \<Rightarrow> byte list list \<Rightarrow> (byte list \<times> byte list) list \<times> parser" where
  "add_data_chunks p [] = ([], p)"
| "add_data_chunks p (c # cs) =
     (let (frames, p') = add_data p c;
          (later, p'') = add_data_chunks p' cs
      in (frames @ later, p''))"

section \<open>Python string operations used by the source\<close>

text \<open>
  \<^verbatim>\<open>str.isspace\<close> on one code point, which is what \<^verbatim>\<open>strip()\<close>, \<^verbatim>\<open>rstrip()\<close> and
  \<^verbatim>\<open>split()\<close> without arguments test: U+0009..U+000D, U+001C..U+0020, U+0085, U+00A0,
  U+1680, U+2000..U+200A, U+2028, U+2029, U+202F, U+205F, U+3000.
\<close>

definition py_isspace :: "nat \<Rightarrow> bool" where
  "py_isspace c \<longleftrightarrow>
     (9 \<le> c \<and> c \<le> 13) \<or> (28 \<le> c \<and> c \<le> 32) \<or> c = 133 \<or> c = 160 \<or> c = 5760 \<or>
     (8192 \<le> c \<and> c \<le> 8202) \<or> c = 8232 \<or> c = 8233 \<or> c = 8239 \<or> c = 8287 \<or> c = 12288"

definition py_lstrip :: "pystr \<Rightarrow> pystr" where
  "py_lstrip s = dropWhile py_isspace s"

definition py_rstrip :: "pystr \<Rightarrow> pystr" where
  "py_rstrip s = rev (dropWhile py_isspace (rev s))"

definition py_strip :: "pystr \<Rightarrow> pystr" where
  "py_strip s = py_rstrip (py_lstrip s)"

definition py_startswith :: "pystr \<Rightarrow> pystr \<Rightarrow> bool" where
  "py_startswith s prefix \<longleftrightarrow> take (length prefix) s = prefix"

text \<open>\<^verbatim>\<open>s.split()\<close>: the maximal runs of non-whitespace; \<open>cur\<close> is the run being read.\<close>

fun split_ws :: "pystr \<Rightarrow> pystr \<Rightarrow> pystr list" where
  "split_ws cur [] = (if cur = [] then [] else [cur])"
| "split_ws cur (c # cs) =
     (if py_isspace c then (if cur = [] then split_ws [] cs else cur # split_ws [] cs)
      else split_ws (cur @ [c]) cs)"

definition py_split :: "pystr \<Rightarrow> pystr list" where
  "py_split s = split_ws [] s"

fun py_join :: "pystr \<Rightarrow> pystr list \<Rightarrow> pystr" where
  "py_join sep [] = []"
| "py_join sep [x] = x"
| "py_join sep (x # y # ys) = x @ sep @ py_join sep (y # ys)"

text \<open>
  \<^verbatim>\<open>s.rfind(p, start, end)\<close>: the highest index \<open>i \<ge> start\<close> with \<^verbatim>\<open>s[i:i+len(p)] == p\<close>
  and \<open>i + len(p) \<le> min(end, len(s))\<close>; \<open>None\<close> stands for \<open>-1\<close>.
\<close>

definition py_rfind :: "pystr \<Rightarrow> pystr \<Rightarrow> nat \<Rightarrow> nat \<Rightarrow> nat option" where
  "py_rfind s p start end =
     List.find (\<lambda>i. py_slice s i (i + length p) = p)
       (rev [start..<Suc (min end (length s)) - length p])"

text \<open>\<^verbatim>\<open>str(n)\<close> for a non-negative integer.\<close>

fun py_str_nat :: "nat \<Rightarrow> pystr" where
  "py_str_nat n = (if n < 10 then [48 + n] else py_str_nat (n div 10) @ [48 + n mod 10])"

declare py_str_nat.simps [simp del]

text \<open>
  \<^verbatim>\<open>s.encode('utf-8')\<close>: \<^verbatim>\<open>UnicodeEncodeError\<close> on a surrogate code point (a Python
  \<^verbatim>\<open>str\<close> holds no code point above U+10FFFF).
\<close>

definition utf8_char :: "nat \<Rightarrow> error + byte list" where
  "utf8_char c =
     (if c < 0x80 then Inr [of_nat c]
      else if c < 0x800 then Inr [of_nat (0xC0 + c div 64), of_nat (0x80 + c mod 64)]
      else if 0xD800 \<le> c \<and> c \<le> 0xDFFF then Inl UnicodeEncodeError
      else if c < 0x10000 then
        Inr [of_nat (0xE0 + c div 4096), of_nat (0x80 + (c div 64) mod 64),
             of_nat (0x80 + c mod 64)]
      else if c < 0x110000 then
        Inr [of_nat (0xF0 + c div 262144), of_nat (0x80 + (c div 4096) mod 64),
             of_nat (0x80 + (c div 64) mod 64), of_nat (0x80 + c mod 64)]
      else Inl UnicodeEncodeError)"

fun utf8_encode :: "pystr \<Rightarrow> error + byte list" where
  "utf8_encode [] = Inr []"
| "utf8_encode (c # cs) =
     (case utf8_char c of
        Inl e \<Rightarrow> Inl e
      | Inr bs \<Rightarrow> (case utf8_encode cs of Inl e \<Rightarrow> Inl e | Inr bs' \<Rightarrow> Inr (bs @ bs')))"

section \<open>Generator client (\<^verbatim>\<open>AIHandler\<close>, \<^verbatim>\<open>ai_handler.py\<close>)\<close>

text \<open>The attributes set once in \<^verbatim>\<open>__init__\<close>.\<close>

definition max_retries :: nat where "max_retries = 3"
definition min_chars :: nat where "min_chars = 200"
definition max_chars :: nat where "max_chars = 600"
definition ideal_low :: nat where "ideal_low = 250"
definition ideal_high :: nat where "ideal_high = 450"

definition clean_whitespace :: "pystr \<Rightarrow> pystr" where
  "clean_whitespace s = py_join (lit '' '') (py_split s)"

text \<open>
  \<^verbatim>\<open>_trim_to_max_chars\<close>. The patterns are \<^verbatim>\<open>[". ", "! ", "? ", "\n", " - "]\<close>; each hit
  of \<^verbatim>\<open>rfind\<close> contributes \<^verbatim>\<open>idx + len(p.strip())\<close>, and \<^verbatim>\<open>max(candidates)\<close> is the cut.
\<close>

definition boundary_patterns :: "pystr list" where
  "boundary_patterns = [lit ''. '', lit ''! '', lit ''? '', [10], lit '' - '']"

definition trim_candidates :: "pystr \<Rightarrow> nat \<Rightarrow> pystr list \<Rightarrow> nat list" where
  "trim_candidates s cutoff ps =
     concat (map (\<lambda>p. case py_rfind s p 0 cutoff of
                         None \<Rightarrow> []
                       | Some idx \<Rightarrow> [idx + length (py_strip p)]) ps)"

definition trim_to_max_chars :: "pystr \<Rightarrow> pystr" where
  "trim_to_max_chars s0 =
     (let s = py_strip s0 in
      if length s \<le> max_chars then s
      else
        (let cutoff = max_chars;
             candidates = trim_candidates s cutoff boundary_patterns
         in case candidates of
              c # cs \<Rightarrow> py_strip (take (fold max cs c) s)
            | [] \<Rightarrow> py_rstrip (take max_chars s)))"

definition expand_prompt :: pystr where
  "expand_prompt =
     lit ''Please expand the previous answer to roughly '' @
     py_str_nat ideal_low @ [8211] @ py_str_nat ideal_high @ lit '' characters. '' @
     lit ''Do not add fluff; add only essential specifics.''"

text \<open>
  \<^verbatim>\<open>_ensure_length_bounds(chat, base_prompt, first_try_text)\<close>. The argument
  \<open>send_message\<close> stands for \<^verbatim>\<open>self._extract_text(chat.send_message(...))\<close>: \<open>Inr\<close> the
  extracted text, \<open>Inl\<close> the message of an exception raised inside the \<^verbatim>\<open>try\<close>
  (which the \<^verbatim>\<open>except\<close> turns into a warning, leaving \<^verbatim>\<open>text\<close> as it was).
\<close>

definition ensure_length_bounds ::
  "(pystr \<Rightarrow> pystr + pystr) \<Rightarrow> pystr \<Rightarrow> pystr \<Rightarrow> pystr" where
  "ensure_length_bounds send_message base_prompt first_try_text =
     (let text = clean_whitespace first_try_text;
          text =
            (if length text < min_chars then
               (case send_message expand_prompt of
                  Inl e \<Rightarrow> text
                | Inr resp \<Rightarrow>
                    (let expanded = py_strip resp;
                         expanded = (if clean_whitespace expanded \<noteq> []
                                     then clean_whitespace expanded else text)
                     in expanded))
             else text)
      in if length text > max_chars then trim_to_max_chars text else text)"

text \<open>
  \<^verbatim>\<open>chat_respond\<close> hands \<^verbatim>\<open>user_id\<close>, a \<^verbatim>\<open>str\<close>, to \<^verbatim>\<open>_ensure_length_bounds\<close> as
  \<^verbatim>\<open>chat\<close>; \<^verbatim>\<open>chat.send_message\<close> on a \<^verbatim>\<open>str\<close> raises \<^verbatim>\<open>AttributeError\<close>.
\<close>

definition str_send_message :: "pystr \<Rightarrow> pystr \<Rightarrow> pystr + pystr" where
  "str_send_message chat prompt =
     Inl ([39] @ lit ''str'' @ [39] @ lit '' object has no attribute '' @
          [39] @ lit ''send_message'' @ [39])"

definition concise_prompt :: "pystr \<Rightarrow> pystr" where
  "concise_prompt prompt =
     prompt @ [10, 10] @
     lit ''(Reply concisely per rules: ~250'' @ [8211] @
     lit ''450 chars total; never under 200 or over 600; '' @
     lit ''use 1'' @ [8211] @ lit ''3 short bullets or a compact paragraph; no fluff.)''"

definition fallback_reply :: pystr where
  "fallback_reply =
     lit ''I'' @ [8217] @ lit ''m having trouble responding right now. Please try again.''"

text \<open>
  The \<^verbatim>\<open>for attempt in range(self.max_retries)\<close> loop of \<^verbatim>\<open>chat_respond\<close>.
  \<open>generate attempt prompt\<close> stands for \<^verbatim>\<open>self._extract_text(generate_content(...))\<close> of
  that attempt: \<open>Inr\<close> the text, \<open>Inl\<close> the message of the exception. The result is
  \<open>Inr\<close> the returned string or \<open>Inl\<close> the message of the raised exception.
\<close>

fun chat_attempts ::
  "(nat \<Rightarrow> pystr \<Rightarrow> pystr + pystr) \<Rightarrow> pystr \<Rightarrow> pystr \<Rightarrow> nat list \<Rightarrow> pystr + pystr" where
  "chat_attempts generate user_id cp [] = Inr fallback_reply"
| "chat_attempts generate user_id cp (attempt # rest) =
     (case generate attempt cp of
        Inr resp \<Rightarrow>
          (let raw = py_strip resp in
           if raw \<noteq> [] then Inr (ensure_length_bounds (str_send_message user_id) cp raw)
           else chat_attempts generate user_id cp rest)
      | Inl e \<Rightarrow>
          (if attempt < max_retries - 1 then chat_attempts generate user_id cp rest
           else Inl (lit ''AI generation failed after '' @ py_str_nat max_retries @
                     lit '' attempts: '' @ e)))"

definition chat_respond ::
  "bool \<Rightarrow> (nat \<Rightarrow> pystr \<Rightarrow> pystr + pystr) \<Rightarrow> pystr \<Rightarrow> pystr \<Rightarrow> pystr + pystr" where
  "chat_respond client generate user_id prompt =
     (if \<not> client then Inl (lit ''AI model not initialized'')
      else chat_attempts generate user_id (concise_prompt prompt) [0..<max_retries])"

section \<open>Command interceptor (\<^verbatim>\<open>GeminiIntegration\<close>, \<^verbatim>\<open>multi_client_proxy.py\<close>)\<close>

text \<open>
  \<^verbatim>\<open>self.ai_handler\<close> is \<open>None\<close> or an \<^verbatim>\<open>AIHandler\<close>, seen here through its method
  \<^verbatim>\<open>chat_respond(sender_id, prompt)\<close> (\<open>Inr\<close> the reply, \<open>Inl\<close> the message of a raised
  exception). \<^verbatim>\<open>process_message\<close> returns its \<^verbatim>\<open>Optional[str]\<close> together with the list
  of calls it made to the generator.
\<close>

type_synonym ai_handler = "pystr \<Rightarrow> pystr \<Rightarrow> pystr + pystr"

definition process_message ::
  "ai_handler option \<Rightarrow> pystr \<Rightarrow> pystr \<Rightarrow> pystr option \<times> (pystr \<times> pystr) list" where
  "process_message ai_handler sender_id message =
     (if \<not> py_startswith message (lit ''/gem'') then (None, [])
      else
        (case ai_handler of
           None \<Rightarrow> (Some (lit ''[Gemini AI not available - GEMINI_API_KEY not set]''), [])
         | Some handler \<Rightarrow>
             (let prompt = py_strip (drop 4 message) in
              if prompt = [] then (Some (lit ''[Please provide a question after /gem]''), [])
              else
                (case handler sender_id prompt of
                   Inr response \<Rightarrow> (Some response, [(sender_id, prompt)])
                 | Inl e \<Rightarrow>
                     (Some (lit ''[AI Error: '' @ take 100 e @ lit '']''),
                      [(sender_id, prompt)])))))"

section \<open>Proxy (\<^verbatim>\<open>MultiClientProxy\<close>, \<^verbatim>\<open>multi_client_proxy.py\<close>)\<close>

text \<open>The dataclass \<^verbatim>\<open>ClientConnection\<close>; stream objects are named by numbers.\<close>

record client_connection =
  cc_reader :: nat
  cc_writer :: nat
  cc_address :: pystr
  cc_id :: nat

text \<open>
  \<^verbatim>\<open>handle_client_data\<close>. The protobuf decoder \<^verbatim>\<open>try_parse_text_message\<close> belongs to
  the external \<^verbatim>\<open>meshtastic\<close> package and is the argument \<open>try_parse\<close> (a text record
  \<open>(sender_id, channel, text)\<close> or \<open>None\<close>). The result is the list of
  \<^verbatim>\<open>send_ai_response(response, channel=channel)\<close> tasks created and the bytes handed to
  \<^verbatim>\<open>send_to_radio\<close>.
\<close>

type_synonym text_record = "pystr \<times> nat \<times> pystr"

fun intercept_frames ::
  "(byte list \<Rightarrow> text_record option) \<Rightarrow> ai_handler option \<Rightarrow>
   (byte list \<times> byte list) list \<Rightarrow> (pystr \<times> nat) list" where
  "intercept_frames try_parse gemini [] = []"
| "intercept_frames try_parse gemini ((raw_frame, payload) # frames) =
     (case try_parse payload of
        None \<Rightarrow> intercept_frames try_parse gemini frames
      | Some (sender_id, channel, text) \<Rightarrow>
          (if py_startswith text (lit ''/gem'') then
             (case fst (process_message gemini sender_id text) of
                None \<Rightarrow> intercept_frames try_parse gemini frames
              | Some response \<Rightarrow>
                  (if response \<noteq> []
                   then (response, channel) # intercept_frames try_parse gemini frames
                   else intercept_frames try_parse gemini frames))
           else intercept_frames try_parse gemini frames))"

definition handle_client_data ::
  "(byte list \<Rightarrow> text_record option) \<Rightarrow> ai_handler option \<Rightarrow> client_connection \<Rightarrow>
   byte list \<Rightarrow> (pystr \<times> nat) list \<times> byte list" where
  "handle_client_data try_parse gemini client data =
     (let parser = new_parser;
          (frames, parser') = add_data parser data
      in (intercept_frames try_parse gemini frames, data))"

text \<open>
  \<^verbatim>\<open>random.randint(a, b)\<close> is \<^verbatim>\<open>a + randbelow(b - a + 1)\<close>. The random source is the
  argument \<open>draw\<close>, reduced to \<^verbatim>\<open>range(b - a + 1)\<close>: every value of the range can be
  drawn and no other. \<^verbatim>\<open>_generate_packet_id\<close> is \<^verbatim>\<open>random.randint(1, 0xFFFFFFFF)\<close>.
\<close>

definition randint :: "nat \<Rightarrow> int \<Rightarrow> int \<Rightarrow> int" where
  "randint draw a b = a + int (draw mod nat (b - a + 1))"

definition generate_packet_id :: "nat \<Rightarrow> int" where
  "generate_packet_id draw = randint draw 1 0xFFFFFFFF"

text \<open>
  Assigning a Python integer to a \<^verbatim>\<open>uint32\<close> or \<^verbatim>\<open>fixed32\<close> field of a protobuf message:
  \<^verbatim>\<open>ValueError\<close> when the value is outside \<open>0..2^32-1\<close>.
\<close>

definition set_uint32 :: "int \<Rightarrow> error + 32 word" where
  "set_uint32 v = (if 0 \<le> v \<and> v < 2 ^ 32 then Inr (word_of_int v) else Inl ValueError)"

text \<open>
  \<^verbatim>\<open>send_ai_response\<close>. The fields of the \<^verbatim>\<open>MeshPacket\<close> the function sets (\<^verbatim>\<open>id\<close> and
  \<^verbatim>\<open>to\<close> are \<^verbatim>\<open>fixed32\<close>, \<^verbatim>\<open>channel\<close> and \<^verbatim>\<open>hop_limit\<close> are \<^verbatim>\<open>uint32\<close>); the two
  envelope serialisers (\<^verbatim>\<open>ToRadio\<close> and \<^verbatim>\<open>FromRadio\<close> with \<^verbatim>\<open>packet.CopyFrom(mesh_packet)\<close>,
  then \<^verbatim>\<open>SerializeToString()\<close>) belong to the external package: \<open>None\<close> when its import
  fails. \<open>channel_index\<close> is \<^verbatim>\<open>self.channel_index\<close>, \<open>draw\<close> the random source. The result
  lists the frames handed to \<^verbatim>\<open>send_to_radio\<close> and \<^verbatim>\<open>broadcast_to_clients\<close>; an exception
  ends the function where it is raised (the \<^verbatim>\<open>except\<close> clauses only log).
\<close>

datatype portnum = TEXT_MESSAGE_APP | OTHER_APP nat

record mesh_packet =
  mp_id :: "32 word"
  mp_to :: "32 word"
  mp_channel :: "32 word"
  mp_want_ack :: bool
  mp_hop_limit :: "32 word"
  mp_portnum :: portnum
  mp_payload :: "byte list"

record mesh_pb2 =
  to_radio_bytes :: "mesh_packet \<Rightarrow> byte list"
  from_radio_bytes :: "mesh_packet \<Rightarrow> byte list"

datatype action = SendToRadio "byte list" | BroadcastToClients "byte list"

definition make_packet :: "32 word \<Rightarrow> 32 word \<Rightarrow> byte list \<Rightarrow> mesh_packet" where
  "make_packet packet_id use_channel body =
     \<lparr>mp_id = packet_id, mp_to = 0xFFFFFFFF, mp_channel = use_channel, mp_want_ack = True,
      mp_hop_limit = 7, mp_portnum = TEXT_MESSAGE_APP, mp_payload = body\<rparr>"

definition send_ai_response ::
  "mesh_pb2 option \<Rightarrow> int \<Rightarrow> nat \<Rightarrow> pystr \<Rightarrow> int option \<Rightarrow> action list" where
  "send_ai_response pb channel_index draw text channel =
     (case pb of
        None \<Rightarrow> []
      | Some pb2 \<Rightarrow>
          (let trimmed = take 200 text;
               use_channel = (case channel of Some c \<Rightarrow> c | None \<Rightarrow> channel_index);
               packet_id = generate_packet_id draw
           in case set_uint32 packet_id of
                Inl e \<Rightarrow> []
              | Inr id_field \<Rightarrow>
                  (case set_uint32 use_channel of
                     Inl e \<Rightarrow> []
                   | Inr channel_field \<Rightarrow>
                       (case utf8_encode trimmed of
                          Inl e \<Rightarrow> []
                        | Inr body \<Rightarrow>
                            (let mesh_packet = make_packet id_field channel_field body;
                                 payload = to_radio_bytes pb2 mesh_packet
                             in case build_frame payload of
                                  Inl e \<Rightarrow> []
                                | Inr frame \<Rightarrow>
                                    (let client_payload = from_radio_bytes pb2 mesh_packet
                                     in case build_frame client_payload of
                                          Inl e \<Rightarrow> [SendToRadio frame]
                                        | Inr client_frame \<Rightarrow>
                                            [SendToRadio frame,
                                             BroadcastToClients client_frame]))))))"

text \<open>
  The radio link: the writer (\<open>None\<close> before the first connection), the latch
  \<^verbatim>\<open>radio_connected\<close>, the number of \<^verbatim>\<open>reconnect_to_radio\<close> tasks created so far and the
  data handed to the writer. The outcome says whether \<^verbatim>\<open>self.radio_writer.write(data)\<close> or
  the following \<^verbatim>\<open>drain()\<close> raises; when \<^verbatim>\<open>drain\<close> raises the data has already been handed
  to the writer.
\<close>

datatype io_outcome = IoOk | WriteRaises | DrainRaises

record radio_link =
  radio_writer :: "nat option"
  radio_connected :: bool
  reconnect_tasks :: nat
  radio_written :: "byte list list"

definition send_to_radio ::
  "radio_link \<Rightarrow> io_outcome \<Rightarrow> byte list \<Rightarrow> radio_link \<times> bool" where
  "send_to_radio link outcome data =
     (case radio_writer link of
        None \<Rightarrow> (link, False)
      | Some w \<Rightarrow>
          (case outcome of
             IoOk \<Rightarrow> (link\<lparr>radio_written := radio_written link @ [data]\<rparr>, True)
           | WriteRaises \<Rightarrow> (link, False)
           | DrainRaises \<Rightarrow> (link\<lparr>radio_written := radio_written link @ [data]\<rparr>, False)))"

text \<open>
  The branch of \<^verbatim>\<open>radio_reader_task\<close> taken when \<^verbatim>\<open>read\<close> returns no data:
  \<^verbatim>\<open>self.radio_connected.clear(); asyncio.create_task(self.reconnect_to_radio())\<close>.
\<close>

definition radio_reader_eof :: "radio_link \<Rightarrow> radio_link" where
  "radio_reader_eof link =
     link\<lparr>radio_connected := False, reconnect_tasks := reconnect_tasks link + 1\<rparr>"

text \<open>
  \<^verbatim>\<open>broadcast_to_clients\<close> as the sequence of lock and socket events of one call.
  \<open>io\<close> says, for each client id, whether \<^verbatim>\<open>write\<close> or \<^verbatim>\<open>drain\<close> raises. The clean-up
  loop calls \<^verbatim>\<open>_remove_client\<close>, which enters \<^verbatim>\<open>async with self.clients_lock\<close> while this
  call still holds that lock; an \<^verbatim>\<open>asyncio.Lock\<close> is not re-entrant, so the call waits
  there and does not return (second component \<open>False\<close>).
\<close>

datatype event =
  LockAcquire | LockRelease | WriterWrite nat | WriterDrain nat | LockWaitForever

definition py_truthy :: "nat option \<Rightarrow> bool" where
  "py_truthy v = (case v of None \<Rightarrow> False | Some n \<Rightarrow> n \<noteq> 0)"

fun broadcast_loop ::
  "(nat \<Rightarrow> io_outcome) \<Rightarrow> nat option \<Rightarrow> (nat \<times> client_connection) list \<Rightarrow>
   event list \<times> nat list" where
  "broadcast_loop io exclude_id [] = ([], [])"
| "broadcast_loop io exclude_id ((client_id, client) # items) =
     (let (events, disconnected) = broadcast_loop io exclude_id items in
      if py_truthy exclude_id \<and> Some client_id = exclude_id then (events, disconnected)
      else
        (case io client_id of
           IoOk \<Rightarrow> (WriterWrite client_id # WriterDrain client_id # events, disconnected)
         | WriteRaises \<Rightarrow> (WriterWrite client_id # events, client_id # disconnected)
         | DrainRaises \<Rightarrow>
             (WriterWrite client_id # WriterDrain client_id # events,
              client_id # disconnected)))"

definition broadcast_to_clients ::
  "(nat \<Rightarrow> io_outcome) \<Rightarrow> (nat \<times> client_connection) list \<Rightarrow> nat option \<Rightarrow>
   event list \<times> bool" where
  "broadcast_to_clients io clients exclude_id =
     (let (events, disconnected) = broadcast_loop io exclude_id clients in
      if disconnected = [] then (LockAcquire # events @ [LockRelease], True)
      else (LockAcquire # events @ [LockWaitForever], False))"

text \<open>
  Reading a trace: \<open>io_while_locked held evs\<close> holds when some socket write or drain of
  \<open>evs\<close> happens while the lock is held, \<open>io_while_unlocked held evs\<close> when one happens
  while it is not (\<open>held\<close> is the state of the lock before \<open>evs\<close>).
\<close>

fun io_while_locked :: "bool \<Rightarrow> event list \<Rightarrow> bool" where
  "io_while_locked held [] = False"
| "io_while_locked held (LockAcquire # evs) = io_while_locked True evs"
| "io_while_locked held (LockRelease # evs) = io_while_locked False evs"
| "io_while_locked held (WriterWrite c # evs) = (held \<or> io_while_locked held evs)"
| "io_while_locked held (WriterDrain c # evs) = (held \<or> io_while_locked held evs)"
| "io_while_locked held (LockWaitForever # evs) = io_while_locked held evs"

fun io_while_unlocked :: "bool \<Rightarrow> event list \<Rightarrow> bool" where
  "io_while_unlocked held [] = False"
| "io_while_unlocked held (LockAcquire # evs) = io_while_unlocked True evs"
| "io_while_unlocked held (LockRelease # evs) = io_while_unlocked False evs"
| "io_while_unlocked held (WriterWrite c # evs) = (\<not> held \<or> io_while_unlocked held evs)"
| "io_while_unlocked held (WriterDrain c # evs) = (\<not> held \<or> io_while_unlocked held evs)"
| "io_while_unlocked held (LockWaitForever # evs) = io_while_unlocked held evs"

section \<open>Notions used to state and prove the properties\<close>

text \<open>The magic pair sits at index \<open>i\<close> of \<open>b\<close>.\<close>

definition magic_at :: "byte list \<Rightarrow> nat \<Rightarrow> bool" where
  "magic_at b i \<longleftrightarrow> Suc i < length b \<and> b ! i = 0x94 \<and> b ! Suc i = 0xC3"

text \<open>The frame of a payload, written out.\<close>

definition framed :: "byte list \<Rightarrow> byte list" where
  "framed p = [0x94, 0xC3, of_nat (length p div 256), of_nat (length p mod 256)] @ p"

text \<open>Unicode scalar values: the code points that UTF-8 encodes.\<close>

definition is_scalar :: "nat \<Rightarrow> bool" where
  "is_scalar c \<longleftrightarrow> c < 0xD800 \<or> (0xDFFF < c \<and> c < 0x110000)"

text \<open>The socket events of a trace.\<close>

definition is_io :: "event \<Rightarrow> bool" where
  "is_io e = (case e of WriterWrite c \<Rightarrow> True | WriterDrain c \<Rightarrow> True | _ \<Rightarrow> False)"

text \<open>A boundary pattern occurs at index \<open>i\<close> of \<open>s\<close> and ends within the first
  \<^verbatim>\<open>max_chars\<close> characters.\<close>

definition boundary_at :: "pystr \<Rightarrow> pystr \<Rightarrow> nat \<Rightarrow> bool" where
  "boundary_at s p i \<longleftrightarrow>
     p \<in> set boundary_patterns \<and> i + length p \<le> max_chars \<and> py_slice s i (i + length p) = p"

text \<open>A text of 704 characters whose only boundary is the \<open>. \<close> at index 2.\<close>

definition long_reply :: pystr where
  "long_reply = lit ''Hi. '' @ replicate 700 97"

section \<open>Properties of the frame codec\<close>

lemma find_magic_Some:
  "find_magic b = Some i \<longleftrightarrow>
     i < length b - 1 \<and> py_slice b i (i + 2) = MESHTASTIC_MAGIC \<and>
     (\<forall>j<i. py_slice b j (j + 2) \<noteq> MESHTASTIC_MAGIC)"
  unfolding find_magic_def find_Some_iff
  by (auto simp: nth_upt)

lemma find_magic_None:
  "find_magic b = None \<longleftrightarrow> (\<forall>i<length b - 1. py_slice b i (i + 2) \<noteq> MESHTASTIC_MAGIC)"
  unfolding find_magic_def find_None_iff
  by auto

lemma slice_magic_iff:
  "py_slice b i (i + 2) = MESHTASTIC_MAGIC \<longleftrightarrow> magic_at b i"
proof -
  have "take 2 (drop i b) = [0x94, 0xC3] \<longleftrightarrow>
     Suc i < length b \<and> b ! i = 0x94 \<and> b ! Suc i = 0xC3"
  proof (cases "drop i b")
    case Nil
    then show ?thesis by auto
  next
    case (Cons x xs)
    note c1 = this
    then have i: "i < length b" by (cases "i < length b") auto
    with c1 have x: "x = b ! i" by (metis nth_via_drop)
    show ?thesis
    proof (cases xs)
      case Nil
      with c1 have "length (drop i b) = 1" by simp
      then have "Suc i = length b" using i by simp
      with c1 Nil show ?thesis by (simp add: numeral_2_eq_2)
    next
      case (Cons y ys)
      with c1 have "drop (Suc i) b = y # ys" by (metis drop_Suc tl_drop list.sel(3))
      then have y: "y = b ! Suc i" and "Suc i < length b"
        by (metis nth_via_drop, cases "Suc i < length b") auto
      with c1 Cons x show ?thesis by (simp add: numeral_2_eq_2)
    qed
  qed
  then show ?thesis by (simp add: py_slice_def MESHTASTIC_MAGIC_def magic_at_def)
qed

lemma slice_magic0: "py_slice b 0 2 = MESHTASTIC_MAGIC \<longleftrightarrow> magic_at b 0"
  using slice_magic_iff [of b 0] by (simp add: numeral_2_eq_2)

lemma find_magic_Some_at:
  "find_magic b = Some i \<longleftrightarrow> magic_at b i \<and> (\<forall>j<i. \<not> magic_at b j)"
  unfolding find_magic_Some slice_magic_iff by (auto simp: magic_at_def)

lemma find_magic_None_at: "find_magic b = None \<longleftrightarrow> (\<forall>i. \<not> magic_at b i)"
  unfolding find_magic_None slice_magic_iff by (auto simp: magic_at_def)

lemma find_magic_Some_pos:
  assumes "py_slice b 0 2 \<noteq> MESHTASTIC_MAGIC" "find_magic b = Some i"
  shows "0 < i"
  using assms unfolding slice_magic0 find_magic_Some_at by (cases i) auto

lemma loop_short: "length b < 4 \<Longrightarrow> add_data_loop b acc = (acc, b)"
  by (subst add_data_loop.simps) (simp add: HEADER_SIZE_def)

lemma loop_frame:
  assumes "4 \<le> length b" "py_slice b 0 2 = MESHTASTIC_MAGIC"
    and "4 + unpack_H (b ! 2) (b ! 3) \<le> length b"
  shows "add_data_loop b acc =
    add_data_loop (drop (4 + unpack_H (b ! 2) (b ! 3)) b)
      (acc @ [(py_slice b 0 (4 + unpack_H (b ! 2) (b ! 3)),
               py_slice b 4 (4 + unpack_H (b ! 2) (b ! 3)))])"
  using assms by (subst add_data_loop.simps) (simp add: HEADER_SIZE_def Let_def)

lemma loop_wait:
  assumes "4 \<le> length b" "py_slice b 0 2 = MESHTASTIC_MAGIC"
    and "length b < 4 + unpack_H (b ! 2) (b ! 3)"
  shows "add_data_loop b acc = (acc, b)"
  using assms by (subst add_data_loop.simps) (simp add: HEADER_SIZE_def Let_def)

lemma loop_skip:
  assumes "4 \<le> length b" "py_slice b 0 2 \<noteq> MESHTASTIC_MAGIC" "find_magic b = Some i"
  shows "add_data_loop b acc = add_data_loop (drop i b) acc"
  using assms by (subst add_data_loop.simps) (simp add: HEADER_SIZE_def)

lemma find_magic_None_head:
  assumes "find_magic b = None"
  shows "py_slice b 0 2 \<noteq> MESHTASTIC_MAGIC"
  using assms unfolding slice_magic0 find_magic_None_at by simp

lemma loop_none:
  assumes "4 \<le> length b" "find_magic b = None"
  shows "add_data_loop b acc = (acc, if last b = 0x94 then [0x94] else [])"
proof -
  from assms have "py_slice b 0 2 \<noteq> MESHTASTIC_MAGIC"
    by (intro find_magic_None_head) simp
  moreover from assms have "b \<noteq> []" by auto
  ultimately show ?thesis
    using assms by (subst add_data_loop.simps) (auto simp: HEADER_SIZE_def MESHTASTIC_MAGIC_def)
qed

lemma loop_acc:
  "add_data_loop b acc = (acc @ fst (add_data_loop b []), snd (add_data_loop b []))"
proof (induction b arbitrary: acc rule: length_induct)
  case (1 b)
  show ?case
  proof (cases "4 \<le> length b")
    case False
    then show ?thesis by (simp add: loop_short)
  next
    case len: True
    show ?thesis
    proof (cases "py_slice b 0 2 = MESHTASTIC_MAGIC")
      case magic: True
      let ?t = "4 + unpack_H (b ! 2) (b ! 3)"
      show ?thesis
      proof (cases "?t \<le> length b")
        case False
        with len magic show ?thesis by (simp add: loop_wait)
      next
        case True
        let ?f = "(py_slice b 0 ?t, py_slice b 4 ?t)"
        from len True have sh: "length (drop ?t b) < length b" by simp
        have "add_data_loop b acc = add_data_loop (drop ?t b) (acc @ [?f])"
          using len magic True by (rule loop_frame)
        also have "\<dots> = ((acc @ [?f]) @ fst (add_data_loop (drop ?t b) []),
                          snd (add_data_loop (drop ?t b) []))"
          using 1 sh by blast
        finally have a: "add_data_loop b acc = (acc @ ?f # fst (add_data_loop (drop ?t b) []),
                          snd (add_data_loop (drop ?t b) []))" by simp
        have "add_data_loop b [] = add_data_loop (drop ?t b) ([] @ [?f])"
          using len magic True by (rule loop_frame)
        also have "\<dots> = (([] @ [?f]) @ fst (add_data_loop (drop ?t b) []),
                          snd (add_data_loop (drop ?t b) []))"
          using 1 sh by blast
        finally have b: "add_data_loop b [] = (?f # fst (add_data_loop (drop ?t b) []),
                          snd (add_data_loop (drop ?t b) []))" by simp
        from a b show ?thesis by simp
      qed
    next
      case nomagic: False
      show ?thesis
      proof (cases "find_magic b")
        case None
        with len show ?thesis by (simp add: loop_none)
      next
        case (Some i)
        with nomagic have "0 < i" by (rule find_magic_Some_pos)
        with len have sh: "length (drop i b) < length b" by simp
        have "add_data_loop b acc = add_data_loop (drop i b) acc"
          using len nomagic Some by (rule loop_skip)
        moreover have "add_data_loop b [] = add_data_loop (drop i b) []"
          using len nomagic Some by (rule loop_skip)
        moreover have "add_data_loop (drop i b) acc =
           (acc @ fst (add_data_loop (drop i b) []), snd (add_data_loop (drop i b) []))"
          using 1 sh by blast
        ultimately show ?thesis by simp
      qed
    qed
  qed
qed


lemma magic_at_append_same: "Suc i < length b \<Longrightarrow> magic_at (b @ t) i = magic_at b i"
  by (auto simp: magic_at_def nth_append)

lemma magic_at_drop: "magic_at (drop k x) i = magic_at x (k + i)"
  by (auto simp: magic_at_def)

lemma find_magic_drop:
  assumes "find_magic x = Some j" "k \<le> j"
  shows "find_magic (drop k x) = Some (j - k)"
proof -
  from assms have at: "magic_at x j" and before: "\<And>i. i < j \<Longrightarrow> \<not> magic_at x i"
    by (simp_all add: find_magic_Some_at)
  from at assms(2) have "magic_at (drop k x) (j - k)" by (simp add: magic_at_drop)
  moreover have "\<not> magic_at (drop k x) i" if "i < j - k" for i
    using that before [of "k + i"] by (simp add: magic_at_drop)
  ultimately show ?thesis by (simp add: find_magic_Some_at)
qed

lemma find_magic_drop_None: "find_magic x = None \<Longrightarrow> find_magic (drop k x) = None"
  by (simp add: find_magic_None_at magic_at_drop)

lemma find_magic_append:
  assumes "find_magic b = Some i"
  shows "find_magic (b @ t) = Some i"
proof -
  from assms have at: "magic_at b i" and before: "\<And>j. j < i \<Longrightarrow> \<not> magic_at b j"
    by (simp_all add: find_magic_Some_at)
  from at have i: "Suc i < length b" by (simp add: magic_at_def)
  with at have "magic_at (b @ t) i" by (simp add: magic_at_append_same)
  moreover have "\<not> magic_at (b @ t) j" if "j < i" for j
    using that i before [of j] by (simp add: magic_at_append_same)
  ultimately show ?thesis by (simp add: find_magic_Some_at)
qed

lemma frames_none:
  assumes "find_magic x = None"
  shows "fst (add_data_loop x []) = []"
proof (cases "4 \<le> length x")
  case True
  with assms show ?thesis by (simp add: loop_none)
next
  case False
  then show ?thesis by (simp add: loop_short)
qed

lemma frames_skip:
  assumes "find_magic x = Some i"
  shows "fst (add_data_loop x []) = fst (add_data_loop (drop i x) [])"
proof (cases "i = 0")
  case True
  then show ?thesis by simp
next
  case False
  with assms have "\<not> magic_at x 0" by (simp add: find_magic_Some_at)
  then have nm: "py_slice x 0 2 \<noteq> MESHTASTIC_MAGIC" by (simp add: slice_magic0)
  show ?thesis
  proof (cases "4 \<le> length x")
    case True
    then show ?thesis using nm assms by (simp add: loop_skip)
  next
    case False
    then show ?thesis by (simp add: loop_short)
  qed
qed

lemma frames_garbage:
  assumes "\<And>i. i < k \<Longrightarrow> \<not> magic_at x i"
  shows "fst (add_data_loop (drop k x) []) = fst (add_data_loop x [])"
proof (cases "find_magic x")
  case None
  then show ?thesis by (simp add: frames_none find_magic_drop_None)
next
  case (Some j)
  then have "magic_at x j" by (simp add: find_magic_Some_at)
  with assms have kj: "k \<le> j" by (cases "k \<le> j") auto
  with Some have "find_magic (drop k x) = Some (j - k)" by (rule find_magic_drop)
  then have "fst (add_data_loop (drop k x) []) = fst (add_data_loop (drop (j - k) (drop k x)) [])"
    by (rule frames_skip)
  also from kj have "drop (j - k) (drop k x) = drop j x" by simp
  also have "fst (add_data_loop (drop j x) []) = fst (add_data_loop x [])"
    using Some by (simp add: frames_skip)
  finally show ?thesis .
qed

lemma frames_append:
  "fst (add_data_loop (b @ t) []) =
     fst (add_data_loop b []) @ fst (add_data_loop (snd (add_data_loop b []) @ t) [])"
proof (induction b rule: length_induct)
  case (1 b)
  show ?case
  proof (cases "4 \<le> length b")
    case False
    then show ?thesis by (simp add: loop_short)
  next
    case len: True
    show ?thesis
    proof (cases "py_slice b 0 2 = MESHTASTIC_MAGIC")
      case magic: True
      let ?t = "4 + unpack_H (b ! 2) (b ! 3)"
      show ?thesis
      proof (cases "?t \<le> length b")
        case False
        with len magic show ?thesis by (simp add: loop_wait)
      next
        case True
        let ?f = "(py_slice b 0 ?t, py_slice b 4 ?t)"
        let ?b' = "drop ?t b"
        from len True have sh: "length ?b' < length b" by simp
        have eqb: "add_data_loop b [] = (?f # fst (add_data_loop ?b' []), snd (add_data_loop ?b' []))"
          using loop_frame [OF len magic True, of "[]"] loop_acc [of ?b' "[?f]"] by simp
        from len have nth: "(b @ t) ! 2 = b ! 2" "(b @ t) ! 3 = b ! 3"
          by (simp_all add: nth_append)
        from len magic have magic': "py_slice (b @ t) 0 2 = MESHTASTIC_MAGIC"
          by (simp add: py_slice_def)
        from len have len': "4 \<le> length (b @ t)" by simp
        from True have fit: "4 + unpack_H ((b @ t) ! 2) ((b @ t) ! 3) \<le> length (b @ t)"
          by (simp add: nth)
        from True have f': "(py_slice (b @ t) 0 ?t, py_slice (b @ t) 4 ?t) = ?f"
          by (simp add: py_slice_def)
        from True have d': "drop ?t (b @ t) = ?b' @ t" by simp
        have "add_data_loop (b @ t) [] =
            add_data_loop (drop ?t (b @ t)) ([] @ [(py_slice (b @ t) 0 ?t, py_slice (b @ t) 4 ?t)])"
          using loop_frame [OF len' magic' fit, of "[]"] by (simp only: nth)
        then have "add_data_loop (b @ t) [] = add_data_loop (?b' @ t) [?f]"
          by (simp only: f' d' append_Nil)
        then have eqbt: "fst (add_data_loop (b @ t) []) = ?f # fst (add_data_loop (?b' @ t) [])"
          using loop_acc [of "?b' @ t" "[?f]"] by simp
        from 1 sh have "fst (add_data_loop (?b' @ t) []) =
            fst (add_data_loop ?b' []) @ fst (add_data_loop (snd (add_data_loop ?b' []) @ t) [])"
          by blast
        with eqb eqbt show ?thesis by simp
      qed
    next
      case nomagic: False
      show ?thesis
      proof (cases "find_magic b")
        case None
        let ?r = "(if last b = 0x94 then [0x94] else []) :: byte list"
        let ?k = "length b - length ?r"
        from len None have eqb: "add_data_loop b [] = ([], ?r)" by (simp add: loop_none)
        from len have "b \<noteq> []" by auto
        then have lastb: "last b = b ! (length b - 1)" by (simp add: last_conv_nth)
        have dr: "drop ?k (b @ t) = ?r @ t"
        proof (cases "last b = 0x94")
          case True
          from \<open>b \<noteq> []\<close> have "drop (length b - 1) b = [last b]"
            by (metis append_butlast_last_id append_eq_conv_conj length_butlast)
          with True show ?thesis by simp
        next
          case False
          then show ?thesis by simp
        qed
        have "\<not> magic_at (b @ t) i" if "i < ?k" for i
        proof (cases "Suc i < length b")
          case True
          with None show ?thesis by (simp add: magic_at_append_same find_magic_None_at)
        next
          case False
          with that have i: "i = length b - 1" and nl: "last b \<noteq> 0x94"
            by (auto split: if_splits)
          from len have "length b - 1 < length b" by simp
          with i have "(b @ t) ! i = last b" by (simp add: nth_append lastb)
          with nl show ?thesis by (simp add: magic_at_def)
        qed
        then have "fst (add_data_loop (drop ?k (b @ t)) []) = fst (add_data_loop (b @ t) [])"
          by (rule frames_garbage)
        with dr eqb show ?thesis by simp
      next
        case (Some i)
        with nomagic have pos: "0 < i" by (rule find_magic_Some_pos)
        with len have sh: "length (drop i b) < length b" by simp
        from Some have i: "Suc i < length b" by (simp add: find_magic_Some_at magic_at_def)
        have eqb: "add_data_loop b [] = add_data_loop (drop i b) []"
          using len nomagic Some by (rule loop_skip)
        from Some have "find_magic (b @ t) = Some i" by (rule find_magic_append)
        then have "fst (add_data_loop (b @ t) []) = fst (add_data_loop (drop i (b @ t)) [])"
          by (rule frames_skip)
        also from i have "drop i (b @ t) = drop i b @ t" by simp
        also from 1 sh have "fst (add_data_loop (drop i b @ t) []) =
            fst (add_data_loop (drop i b) []) @
            fst (add_data_loop (snd (add_data_loop (drop i b) []) @ t) [])"
          by blast
        finally show ?thesis by (simp add: eqb)
      qed
    qed
  qed
qed


lemma unpack_pack:
  assumes "n \<le> 65535"
  shows "unpack_H (of_nat (n div 256)) (of_nat (n mod 256)) = n"
proof -
  from assms have "n div 256 < 256" by simp
  then have "unat (of_nat (n div 256) :: byte) = n div 256"
    by (simp add: unat_of_nat)
  moreover have "unat (of_nat (n mod 256) :: byte) = n mod 256"
    by (simp add: unat_of_nat)
  ultimately show ?thesis by (simp add: unpack_H_def)
qed

lemma build_frame_framed: "length p \<le> 65535 \<Longrightarrow> build_frame p = Inr (framed p)"
  by (simp add: build_frame_def pack_H_def MESHTASTIC_MAGIC_def framed_def)

lemma loop_framed:
  assumes "length p \<le> 65535"
  shows "add_data_loop (framed p) [] = ([(framed p, p)], [])"
proof -
  let ?b = "framed p"
  have len: "4 \<le> length ?b" by (simp add: framed_def)
  have magic: "py_slice ?b 0 2 = MESHTASTIC_MAGIC"
    by (simp add: framed_def py_slice_def MESHTASTIC_MAGIC_def)
  have un: "unpack_H (?b ! 2) (?b ! 3) = length p"
    using assms by (simp add: framed_def unpack_pack)
  have fit: "4 + unpack_H (?b ! 2) (?b ! 3) \<le> length ?b"
    unfolding un by (simp add: framed_def)
  have tot: "4 + length p = length ?b" by (simp add: framed_def)
  have "add_data_loop ?b [] =
      add_data_loop (drop (4 + length p) ?b)
        ([] @ [(py_slice ?b 0 (4 + length p), py_slice ?b 4 (4 + length p))])"
    using loop_frame [OF len magic fit, of "[]"] unfolding un .
  also have "drop (4 + length p) ?b = []" by (simp add: framed_def)
  also have "py_slice ?b 0 (4 + length p) = ?b" by (simp add: py_slice_def framed_def)
  also have "py_slice ?b 4 (4 + length p) = p" by (simp add: py_slice_def framed_def)
  finally show ?thesis by (simp add: loop_short)
qed

text \<open>
  Claim C1. For every payload \<open>p\<close> of at most 65535 bytes, the frame built from \<open>p\<close> is
  \<open>0x94 0xC3\<close>, the big-endian 16-bit length and \<open>p\<close>; fed to a fresh parser in one
  \<^verbatim>\<open>add_data\<close> call it yields exactly one pair, whose raw frame is the built frame and whose
  payload is \<open>p\<close>, and the parse buffer is empty afterwards.
\<close>

theorem frame_roundtrip:
  assumes "length p \<le> 65535"
  shows "\<exists>frame. build_frame p = Inr frame \<and>
           frame = [0x94, 0xC3] @ [of_nat (length p div 256), of_nat (length p mod 256)] @ p \<and>
           add_data new_parser frame = ([(frame, p)], \<lparr>buffer = []\<rparr>)"
proof -
  have "add_data new_parser (framed p) = ([(framed p, p)], \<lparr>buffer = []\<rparr>)"
    using loop_framed [OF assms] by (simp add: add_data_def new_parser_def)
  moreover have "framed p = [0x94, 0xC3] @ [of_nat (length p div 256), of_nat (length p mod 256)] @ p"
    by (simp add: framed_def)
  ultimately show ?thesis using build_frame_framed [OF assms] by simp
qed

theorem frame_roundtrip_witness:
  "build_frame [0x41, 0x42, 0x43] = Inr [0x94, 0xC3, 0x00, 0x03, 0x41, 0x42, 0x43] \<and>
   add_data new_parser [0x94, 0xC3, 0x00, 0x03, 0x41, 0x42, 0x43] =
     ([([0x94, 0xC3, 0x00, 0x03, 0x41, 0x42, 0x43], [0x41, 0x42, 0x43])], \<lparr>buffer = []\<rparr>)"
  using frame_roundtrip [of "[0x41, 0x42, 0x43]"] by simp

text \<open>
  Claim C2. For every payload \<open>p\<close> of at most 65535 bytes and every byte sequence
  \<open>garbage\<close> with no occurrence of the pair \<open>0x94 0xC3\<close>, one \<^verbatim>\<open>add_data\<close> call of a fresh
  parser on \<open>garbage\<close> followed by the frame of \<open>p\<close> yields exactly one frame, with
  payload \<open>p\<close>: the garbage before the magic is discarded.
\<close>

theorem frame_resync:
  assumes "length p \<le> 65535"
    and "\<forall>i. Suc i < length garbage \<longrightarrow> \<not> (garbage ! i = 0x94 \<and> garbage ! Suc i = 0xC3)"
  shows "\<exists>frame. build_frame p = Inr frame \<and>
           add_data new_parser (garbage @ frame) = ([(frame, p)], \<lparr>buffer = []\<rparr>)"
proof -
  let ?f = "framed p"
  let ?x = "garbage @ ?f"
  have f0: "?f ! 0 = 0x94" and f1: "?f ! 1 = 0xC3" and flen: "4 \<le> length ?f"
    by (simp_all add: framed_def)
  have "add_data_loop ?x [] = add_data_loop ?f []"
  proof (cases "garbage = []")
    case True
    then show ?thesis by simp
  next
    case False
    then have gpos: "0 < length garbage" by simp
    have none_before: "\<not> magic_at ?x i" if "i < length garbage" for i
    proof (cases "Suc i < length garbage")
      case True
      with assms(2) show ?thesis by (auto simp: magic_at_def nth_append)
    next
      case False
      with that have "Suc i = length garbage" by simp
      then have "?x ! Suc i = 0x94" using f0 by (simp add: nth_append)
      then show ?thesis by (simp add: magic_at_def)
    qed
    have at: "magic_at ?x (length garbage)"
      using f0 f1 flen by (simp add: magic_at_def nth_append)
    from at none_before have fm: "find_magic ?x = Some (length garbage)"
      by (simp add: find_magic_Some_at)
    from none_before [of 0] gpos have "py_slice ?x 0 2 \<noteq> MESHTASTIC_MAGIC"
      by (simp add: slice_magic0)
    moreover from flen have "4 \<le> length ?x" by simp
    ultimately have "add_data_loop ?x [] = add_data_loop (drop (length garbage) ?x) []"
      using fm by (simp add: loop_skip)
    then show ?thesis by simp
  qed
  then have "add_data new_parser ?x = ([(?f, p)], \<lparr>buffer = []\<rparr>)"
    using loop_framed [OF assms(1)] by (simp add: add_data_def new_parser_def)
  with build_frame_framed [OF assms(1)] show ?thesis by simp
qed

theorem frame_resync_witness:
  "add_data new_parser ([0x00, 0xFF] @ [0x94, 0xC3, 0x00, 0x01, 0x5A]) =
     ([([0x94, 0xC3, 0x00, 0x01, 0x5A], [0x5A])], \<lparr>buffer = []\<rparr>)"
proof -
  have g: "\<forall>i. Suc i < length [0x00, 0xFF :: byte] \<longrightarrow>
      \<not> ([0x00, 0xFF :: byte] ! i = 0x94 \<and> [0x00, 0xFF :: byte] ! Suc i = 0xC3)"
    by simp
  have "length [0x5A :: byte] \<le> 65535" by simp
  from frame_resync [OF this g] show ?thesis
    by (simp add: build_frame_def pack_H_def MESHTASTIC_MAGIC_def)
qed

lemma leftover_no_frames: "fst (add_data_loop (snd (add_data_loop x [])) []) = []"
  using frames_append [of x "[]"] by simp

lemma chunks_frames:
  assumes "fst (add_data_loop (buffer p) []) = []"
  shows "fst (add_data_chunks p cs) = fst (add_data_loop (buffer p @ concat cs) [])"
  using assms
proof (induction cs arbitrary: p)
  case Nil
  then show ?case by simp
next
  case (Cons c cs)
  let ?r = "add_data_loop (buffer p @ c) []"
  let ?p' = "p\<lparr>buffer := snd ?r\<rparr>"
  have ad: "add_data p c = (fst ?r, ?p')"
    by (simp add: add_data_def split: prod.splits)
  have "fst (add_data_loop (buffer ?p') []) = []"
    by (simp add: leftover_no_frames)
  then have "fst (add_data_chunks ?p' cs) = fst (add_data_loop (buffer ?p' @ concat cs) [])"
    by (rule Cons.IH)
  then have "fst (add_data_chunks p (c # cs)) =
      fst ?r @ fst (add_data_loop (snd ?r @ concat cs) [])"
    by (simp add: ad case_prod_beta)
  also have "\<dots> = fst (add_data_loop ((buffer p @ c) @ concat cs) [])"
    by (rule frames_append [symmetric])
  finally show ?case by simp
qed

text \<open>
  Claim C3. For every byte sequence and every way of cutting it into consecutive chunks,
  feeding the chunks in order to one fresh parser produces, concatenated, the same list of
  (raw frame, payload) pairs as a single \<^verbatim>\<open>add_data\<close> call of a fresh parser on the whole
  sequence.
\<close>

theorem frame_incremental:
  "fst (add_data_chunks new_parser chunks) = fst (add_data new_parser (concat chunks))"
proof -
  have "fst (add_data_loop (buffer new_parser) []) = []"
    by (simp add: new_parser_def loop_short)
  then have "fst (add_data_chunks new_parser chunks) =
      fst (add_data_loop (buffer new_parser @ concat chunks) [])"
    by (rule chunks_frames)
  then show ?thesis by (simp add: add_data_def split: prod.splits)
qed

theorem frame_incremental_witness:
  "fst (add_data_chunks new_parser [[0x94, 0xC3, 0x00, 0x03], [0x41, 0x42, 0x43]]) =
     [([0x94, 0xC3, 0x00, 0x03, 0x41, 0x42, 0x43], [0x41, 0x42, 0x43])]"
proof -
  have "add_data_loop (framed [0x41, 0x42, 0x43]) [] =
      ([(framed [0x41, 0x42, 0x43], [0x41, 0x42, 0x43])], [])"
    by (rule loop_framed) simp
  then have "fst (add_data new_parser [0x94, 0xC3, 0x00, 0x03, 0x41, 0x42, 0x43]) =
      [([0x94, 0xC3, 0x00, 0x03, 0x41, 0x42, 0x43], [0x41, 0x42, 0x43])]"
    by (simp add: framed_def add_data_def new_parser_def)
  with frame_incremental [of "[[0x94, 0xC3, 0x00, 0x03], [0x41, 0x42, 0x43]]"]
  show ?thesis by simp
qed

section \<open>Properties of the command interceptor\<close>

lemma strip_all_space:
  assumes "\<forall>c\<in>set ws. py_isspace c"
  shows "py_strip ws = []"
proof -
  from assms have d: "dropWhile py_isspace ws = []" by simp
  show ?thesis unfolding py_strip_def py_lstrip_def py_rstrip_def d by simp
qed

lemma gem_prefix: "py_startswith (lit ''/gem'' @ ws) (lit ''/gem'')"
  by (simp add: py_startswith_def lit_def)

lemma gem_drop: "drop 4 (lit ''/gem'' @ ws) = ws"
  by (simp add: lit_def)

text \<open>
  Claim C6, amended. When an AI handler is configured, for every message that is \<open>/gem\<close>
  alone or \<open>/gem\<close> followed only by whitespace, \<^verbatim>\<open>process_message\<close> returns the fixed
  diagnostic \<open>[Please provide a question after /gem]\<close> and makes no call to the generator.
\<close>

theorem empty_prompt_diagnostic:
  assumes "\<forall>c\<in>set ws. py_isspace c"
  shows "process_message (Some handler) sender_id (lit ''/gem'' @ ws) =
           (Some (lit ''[Please provide a question after /gem]''), [])"
  using strip_all_space [OF assms]
  by (simp add: process_message_def gem_prefix gem_drop del: drop_append)

theorem empty_prompt_diagnostic_witness:
  "process_message (Some (\<lambda>sender prompt. Inr prompt)) (lit ''client'') (lit ''/gem'' @ [32, 32, 32]) =
     (Some (lit ''[Please provide a question after /gem]''), [])"
proof -
  have "\<forall>c\<in>set [32, 32, 32]. py_isspace c" by (simp add: py_isspace_def)
  then show ?thesis by (rule empty_prompt_diagnostic)
qed

text \<open>
  Claim C6 as stated fails when no handler is configured: the message \<open>/gem\<close> is then
  answered with the availability diagnostic, not with the empty-prompt one.
\<close>

theorem empty_prompt_without_handler:
  "process_message None (lit ''client'') (lit ''/gem'') =
     (Some (lit ''[Gemini AI not available - GEMINI_API_KEY not set]''), []) \<and>
   process_message None (lit ''client'') (lit ''/gem'') \<noteq>
     (Some (lit ''[Please provide a question after /gem]''), [])"
  by (simp add: process_message_def py_startswith_def lit_def)

text \<open>
  Claim C10. Without an AI handler, \<^verbatim>\<open>process_message\<close> returns
  \<open>[Gemini AI not available - GEMINI_API_KEY not set]\<close> for every message that begins with
  \<open>/gem\<close>, whatever follows the prefix (nothing included), and calls no generator; the
  diagnostic \<open>[Please provide a question after /gem]\<close> is returned only when a handler is
  configured.
\<close>

theorem unavailable_precedes_empty_prompt:
  "(py_startswith message (lit ''/gem'') \<longrightarrow>
      process_message None sender_id message =
        (Some (lit ''[Gemini AI not available - GEMINI_API_KEY not set]''), [])) \<and>
   (fst (process_message ai_handler sender_id message) =
        Some (lit ''[Please provide a question after /gem]'') \<longrightarrow> ai_handler \<noteq> None)"
proof (intro conjI impI)
  assume "py_startswith message (lit ''/gem'')"
  then show "process_message None sender_id message =
      (Some (lit ''[Gemini AI not available - GEMINI_API_KEY not set]''), [])"
    by (simp add: process_message_def)
next
  assume a: "fst (process_message ai_handler sender_id message) =
      Some (lit ''[Please provide a question after /gem]'')"
  show "ai_handler \<noteq> None"
  proof
    assume "ai_handler = None"
    with a have "lit ''[Gemini AI not available - GEMINI_API_KEY not set]'' =
        lit ''[Please provide a question after /gem]''"
      by (simp add: process_message_def split: if_splits)
    then show False by (simp add: lit_def)
  qed
qed

theorem unavailable_precedes_empty_prompt_witness:
  "process_message None (lit ''client'') (lit ''/gem'') =
     (Some (lit ''[Gemini AI not available - GEMINI_API_KEY not set]''), []) \<and>
   fst (process_message (Some (\<lambda>sender prompt. Inr prompt)) (lit ''client'') (lit ''/gem'')) =
     Some (lit ''[Please provide a question after /gem]'') \<and>
   Some (\<lambda>sender prompt. Inr prompt :: pystr + pystr) \<noteq> None"
proof -
  have p: "py_startswith (lit ''/gem'') (lit ''/gem'')"
    by (simp add: py_startswith_def)
  have q: "fst (process_message (Some (\<lambda>sender prompt. Inr prompt)) (lit ''client'') (lit ''/gem'')) =
     Some (lit ''[Please provide a question after /gem]'')"
    by (simp add: process_message_def py_startswith_def py_strip_def py_lstrip_def py_rstrip_def lit_def)
  from unavailable_precedes_empty_prompt
    [of "lit ''/gem''" "lit ''client''" "Some (\<lambda>sender prompt. Inr prompt)"] p q
  show ?thesis by blast
qed

section \<open>Properties of the proxy\<close>

text \<open>
  Claim C8 as stated fails: when \<^verbatim>\<open>drain\<close> raises inside \<^verbatim>\<open>send_to_radio\<close> on a connected
  link, the call returns failure but the latch stays set and no reconnect task is created,
  whereas the end-of-stream branch of the read loop clears the latch and creates one.
\<close>

theorem write_failure_no_recovery:
  "snd (send_to_radio \<lparr>radio_writer = Some 1, radio_connected = True, reconnect_tasks = 0,
                        radio_written = []\<rparr> DrainRaises [0x94, 0xC3, 0x00, 0x00]) = False \<and>
   radio_connected (fst (send_to_radio \<lparr>radio_writer = Some 1, radio_connected = True,
       reconnect_tasks = 0, radio_written = []\<rparr> DrainRaises [0x94, 0xC3, 0x00, 0x00])) = True \<and>
   reconnect_tasks (fst (send_to_radio \<lparr>radio_writer = Some 1, radio_connected = True,
       reconnect_tasks = 0, radio_written = []\<rparr> DrainRaises [0x94, 0xC3, 0x00, 0x00])) = 0 \<and>
   radio_reader_eof \<lparr>radio_writer = Some 1, radio_connected = True, reconnect_tasks = 0,
                      radio_written = []\<rparr> =
     \<lparr>radio_writer = Some 1, radio_connected = False, reconnect_tasks = 1, radio_written = []\<rparr>"
  by (simp add: send_to_radio_def radio_reader_eof_def)

text \<open>
  Claim C8, amended. Whenever a write to the radio socket fails inside \<^verbatim>\<open>send_to_radio\<close>
  (\<^verbatim>\<open>write\<close> or \<^verbatim>\<open>drain\<close> raises), \<^verbatim>\<open>send_to_radio\<close> returns failure to its caller and
  does not move the link to Disconnected: the latch \<^verbatim>\<open>radio_connected\<close>, the writer and the
  number of reconnect tasks are what they were before the call (as they are after every
  call), whereas the end-of-stream branch of the read loop clears the latch and creates a
  reconnect task.
\<close>

theorem send_to_radio_keeps_link_state:
  "radio_connected (fst (send_to_radio link outcome data)) = radio_connected link \<and>
   reconnect_tasks (fst (send_to_radio link outcome data)) = reconnect_tasks link \<and>
   radio_writer (fst (send_to_radio link outcome data)) = radio_writer link \<and>
   (outcome \<noteq> IoOk \<longrightarrow> snd (send_to_radio link outcome data) = False) \<and>
   radio_connected (radio_reader_eof link) = False \<and>
   reconnect_tasks (radio_reader_eof link) = reconnect_tasks link + 1"
  by (simp add: send_to_radio_def radio_reader_eof_def split: option.splits io_outcome.splits)

theorem send_to_radio_keeps_link_state_witness:
  "radio_connected (fst (send_to_radio
      \<lparr>radio_writer = Some 1, radio_connected = True, reconnect_tasks = 0, radio_written = []\<rparr>
      WriteRaises [0x94, 0xC3, 0x00, 0x00])) = True \<and>
   reconnect_tasks (fst (send_to_radio
      \<lparr>radio_writer = Some 1, radio_connected = True, reconnect_tasks = 0, radio_written = []\<rparr>
      WriteRaises [0x94, 0xC3, 0x00, 0x00])) = 0 \<and>
   snd (send_to_radio
      \<lparr>radio_writer = Some 1, radio_connected = True, reconnect_tasks = 0, radio_written = []\<rparr>
      WriteRaises [0x94, 0xC3, 0x00, 0x00]) = False \<and>
   reconnect_tasks (radio_reader_eof
      \<lparr>radio_writer = Some 1, radio_connected = True, reconnect_tasks = 0, radio_written = []\<rparr>)
     = 1"
  using send_to_radio_keeps_link_state
    [of "\<lparr>radio_writer = Some 1, radio_connected = True, reconnect_tasks = 0, radio_written = []\<rparr>"
        WriteRaises "[0x94, 0xC3, 0x00, 0x00]"]
  by simp

lemma broadcast_loop_io: "\<forall>e\<in>set (fst (broadcast_loop io exclude_id items)). is_io e"
  by (induction items) (auto simp: is_io_def split: prod.splits io_outcome.splits if_splits)

lemma broadcast_loop_ok:
  "\<forall>(client_id, client)\<in>set items. io client_id = IoOk \<Longrightarrow>
     snd (broadcast_loop io exclude_id items) = []"
  by (induction items) (auto split: prod.splits if_splits)

lemma io_locked_tail:
  assumes "\<forall>e\<in>set evs. is_io e" "t = LockRelease \<or> t = LockWaitForever"
  shows "\<not> io_while_unlocked True (evs @ [t])"
  using assms
proof (induction evs)
  case Nil
  then show ?case by auto
next
  case (Cons e evs)
  then show ?case by (cases e) (auto simp: is_io_def)
qed

text \<open>
  Claim C9, amended. \<^verbatim>\<open>broadcast_to_clients\<close> takes \<^verbatim>\<open>clients_lock\<close> first and performs
  every client write and drain while holding it: no socket event of a call happens outside
  the lock; when no write fails the call ends by releasing the lock and returns.
\<close>

theorem broadcast_writes_under_lock:
  "\<not> io_while_unlocked False (fst (broadcast_to_clients io clients exclude_id)) \<and>
   hd (fst (broadcast_to_clients io clients exclude_id)) = LockAcquire \<and>
   ((\<forall>(client_id, client)\<in>set clients. io client_id = IoOk) \<longrightarrow>
      last (fst (broadcast_to_clients io clients exclude_id)) = LockRelease \<and>
      snd (broadcast_to_clients io clients exclude_id))"
proof -
  obtain events disconnected where bl: "broadcast_loop io exclude_id clients = (events, disconnected)"
    by (cases "broadcast_loop io exclude_id clients")
  from broadcast_loop_io [of io exclude_id clients] bl have io: "\<forall>e\<in>set events. is_io e"
    by simp
  have a: "\<not> io_while_unlocked False (fst (broadcast_to_clients io clients exclude_id))"
    using io_locked_tail [OF io] by (simp add: broadcast_to_clients_def bl)
  have b: "hd (fst (broadcast_to_clients io clients exclude_id)) = LockAcquire"
    by (simp add: broadcast_to_clients_def bl)
  have c: "last (fst (broadcast_to_clients io clients exclude_id)) = LockRelease \<and>
      snd (broadcast_to_clients io clients exclude_id)"
    if "\<forall>(client_id, client)\<in>set clients. io client_id = IoOk"
    using broadcast_loop_ok [OF that, of exclude_id] by (simp add: broadcast_to_clients_def bl)
  from a b c show ?thesis by blast
qed

theorem broadcast_writes_under_lock_witness:
  "broadcast_to_clients (\<lambda>c. IoOk)
      [(1, \<lparr>cc_reader = 1, cc_writer = 1, cc_address = lit ''10.0.0.5:50000'', cc_id = 1\<rparr>)] None =
     ([LockAcquire, WriterWrite 1, WriterDrain 1, LockRelease], True) \<and>
   \<not> io_while_unlocked False [LockAcquire, WriterWrite 1, WriterDrain 1, LockRelease]"
  using broadcast_writes_under_lock
    [of "\<lambda>c. IoOk"
        "[(1, \<lparr>cc_reader = 1, cc_writer = 1, cc_address = lit ''10.0.0.5:50000'', cc_id = 1\<rparr>)]" None]
  by (simp add: broadcast_to_clients_def py_truthy_def)

text \<open>
  Claim C9 as stated fails: with one connected client the write and the drain happen
  between the acquisition and the release of \<^verbatim>\<open>clients_lock\<close>.
\<close>

theorem broadcast_write_while_locked:
  "broadcast_to_clients (\<lambda>c. IoOk)
      [(1, \<lparr>cc_reader = 1, cc_writer = 1, cc_address = lit ''10.0.0.5:50000'', cc_id = 1\<rparr>)] None =
     ([LockAcquire, WriterWrite 1, WriterDrain 1, LockRelease], True) \<and>
   io_while_locked False [LockAcquire, WriterWrite 1, WriterDrain 1, LockRelease]"
  by (simp add: broadcast_to_clients_def py_truthy_def)

text \<open>
  Claim C4 on the code. \<^verbatim>\<open>handle_client_data\<close> builds a new parser at every call, so
  nothing is kept between two reads of a client: a frame cut after its header yields no
  frame in either call, whatever the decoder and the handler are, and its \<open>/gem\<close> command
  is not intercepted, although the same bytes in one chunk are (the bytes are forwarded in
  all three calls).
\<close>

theorem split_frame_not_intercepted:
  "handle_client_data try_parse gemini client [0x94, 0xC3, 0x00, 0x03] =
     ([], [0x94, 0xC3, 0x00, 0x03]) \<and>
   handle_client_data try_parse gemini client [0x41, 0x42, 0x43] = ([], [0x41, 0x42, 0x43]) \<and>
   handle_client_data
     (\<lambda>payload. if payload = [0x41, 0x42, 0x43] then Some (lit ''client'', 2, lit ''/gem hi'')
                 else None)
     (Some (\<lambda>sender prompt. Inr (lit ''ok''))) client
     ([0x94, 0xC3, 0x00, 0x03] @ [0x41, 0x42, 0x43]) =
     ([(lit ''ok'', 2)], [0x94, 0xC3, 0x00, 0x03, 0x41, 0x42, 0x43])"
proof -
  have one: "add_data_loop [0x94, 0xC3, 0x00, 0x03] [] = ([], [0x94, 0xC3, 0x00, 0x03])"
    by (rule loop_wait) (simp_all add: py_slice_def MESHTASTIC_MAGIC_def unpack_H_def)
  have two: "add_data_loop [0x41, 0x42, 0x43] [] = ([], [0x41, 0x42, 0x43])"
    by (rule loop_short) simp
  have "add_data_loop (framed [0x41, 0x42, 0x43]) [] =
      ([(framed [0x41, 0x42, 0x43], [0x41, 0x42, 0x43])], [])"
    by (rule loop_framed) simp
  then have whole: "add_data_loop [0x94, 0xC3, 0x00, 0x03, 0x41, 0x42, 0x43] [] =
      ([([0x94, 0xC3, 0x00, 0x03, 0x41, 0x42, 0x43], [0x41, 0x42, 0x43])], [])"
    by (simp add: framed_def)
  have pm: "fst (process_message (Some (\<lambda>sender prompt. Inr (lit ''ok''))) (lit ''client'')
      (lit ''/gem hi'')) = Some (lit ''ok'')"
    by (simp add: process_message_def py_startswith_def py_strip_def py_lstrip_def
        py_rstrip_def py_isspace_def lit_def)
  have sw: "py_startswith (lit ''/gem hi'') (lit ''/gem'')"
    by (simp add: py_startswith_def lit_def)
  have ne: "lit ''ok'' \<noteq> []" by (simp add: lit_def)
  show ?thesis
    by (simp add: handle_client_data_def add_data_def new_parser_def one two whole pm sw ne)
qed

lemma utf8_char_scalar: "is_scalar c \<Longrightarrow> \<exists>bs. utf8_char c = Inr bs"
  by (auto simp: utf8_char_def is_scalar_def)

lemma utf8_encode_scalar: "\<forall>c\<in>set s. is_scalar c \<Longrightarrow> \<exists>body. utf8_encode s = Inr body"
proof (induction s)
  case Nil
  then show ?case by simp
next
  case (Cons c s)
  then obtain bs body where "utf8_char c = Inr bs" "utf8_encode s = Inr body"
    using utf8_char_scalar [of c] by auto
  then show ?case by simp
qed

lemma generate_packet_id_range:
  "1 \<le> generate_packet_id draw" "generate_packet_id draw \<le> 0xFFFFFFFF"
proof -
  have "draw mod 4294967295 < 4294967295" by simp
  then have "int (draw mod 4294967295) < 4294967295" by linarith
  then show "1 \<le> generate_packet_id draw" "generate_packet_id draw \<le> 0xFFFFFFFF"
    by (simp_all add: generate_packet_id_def randint_def)
qed

lemma uint_set_uint32:
  assumes "0 \<le> v" "v < 2 ^ 32"
  shows "set_uint32 v = Inr (word_of_int v)" and "uint (word_of_int v :: 32 word) = v"
proof -
  from assms show "set_uint32 v = Inr (word_of_int v)" by (simp add: set_uint32_def)
  have "uint (word_of_int v :: 32 word) = take_bit 32 v" by (simp add: uint_word_of_int_eq)
  also from assms have "\<dots> = v" by (simp add: take_bit_int_eq_self)
  finally show "uint (word_of_int v :: 32 word) = v" .
qed

text \<open>
  Claim C5 as stated fails: a call sends nothing when the protobuf package cannot be
  imported, when the channel in effect does not fit the \<^verbatim>\<open>uint32\<close> field (here the default
  channel \<open>-1\<close>), or when the text holds a lone surrogate; each exception is caught and
  logged.
\<close>

theorem response_not_injected:
  "send_ai_response None 2 7 (lit ''hi'') (Some 2) = [] \<and>
   send_ai_response
     (Some \<lparr>to_radio_bytes = (\<lambda>packet. 0x0A # mp_payload packet),
            from_radio_bytes = (\<lambda>packet. 0x12 # mp_payload packet)\<rparr>)
     (- 1) 7 (lit ''hi'') None = [] \<and>
   send_ai_response
     (Some \<lparr>to_radio_bytes = (\<lambda>packet. 0x0A # mp_payload packet),
            from_radio_bytes = (\<lambda>packet. 0x12 # mp_payload packet)\<rparr>)
     2 7 [0xD800] (Some 2) = []"
proof -
  have id7: "set_uint32 (generate_packet_id 7) = Inr (word_of_int (generate_packet_id 7))"
    using generate_packet_id_range [of 7] by (intro uint_set_uint32) simp_all
  have neg: "set_uint32 (- 1) = Inl ValueError" by (simp add: set_uint32_def)
  have ch2: "set_uint32 2 = Inr (word_of_int 2)" by (simp add: set_uint32_def)
  have sur: "utf8_char 0xD800 = Inl UnicodeEncodeError"
    by (simp add: utf8_char_def)
  show ?thesis by (simp add: send_ai_response_def id7 neg ch2 sur)
qed

text \<open>
  Claim C5, amended. For every call \<^verbatim>\<open>send_ai_response(text, channel)\<close> in which the
  protobuf package is imported, the channel in effect (the given channel, the default
  channel when none is given) lies in \<open>0..2^32-1\<close>, the first 200 characters of the text are
  Unicode scalar values and both envelopes serialise to at most 65535 bytes: the inner
  packet has the id drawn by \<^verbatim>\<open>random.randint(1, 0xFFFFFFFF)\<close>, nonzero and of 32 bits,
  destination \<open>0xFFFFFFFF\<close>, that channel, \<open>want_ack\<close> set, \<open>hop_limit\<close> 7, the
  text-application port and the UTF-8 encoding of the first 200 characters of the text as
  body; the same packet is handed to \<^verbatim>\<open>send_to_radio\<close> in the upstream envelope and to
  \<^verbatim>\<open>broadcast_to_clients\<close> in the downstream envelope, each in a frame that a fresh parser
  reads back as exactly that envelope.
\<close>

theorem response_injection:
  assumes in_range: "0 \<le> (case channel of Some c \<Rightarrow> c | None \<Rightarrow> channel_index)"
      "(case channel of Some c \<Rightarrow> c | None \<Rightarrow> channel_index) < 2 ^ 32"
    and scalar: "\<forall>c\<in>set (take 200 text). is_scalar c"
    and fits_up: "\<forall>body. utf8_encode (take 200 text) = Inr body \<longrightarrow>
           length (to_radio_bytes pb2 (make_packet (word_of_int (generate_packet_id draw))
             (word_of_int (case channel of Some c \<Rightarrow> c | None \<Rightarrow> channel_index)) body))
             \<le> 65535"
    and fits_down: "\<forall>body. utf8_encode (take 200 text) = Inr body \<longrightarrow>
           length (from_radio_bytes pb2 (make_packet (word_of_int (generate_packet_id draw))
             (word_of_int (case channel of Some c \<Rightarrow> c | None \<Rightarrow> channel_index)) body))
             \<le> 65535"
  shows "\<exists>packet frame client_frame.
      send_ai_response (Some pb2) channel_index draw text channel =
        [SendToRadio frame, BroadcastToClients client_frame] \<and>
      uint (mp_id packet) = generate_packet_id draw \<and> mp_id packet \<noteq> 0 \<and>
      mp_to packet = 0xFFFFFFFF \<and>
      uint (mp_channel packet) = (case channel of Some c \<Rightarrow> c | None \<Rightarrow> channel_index) \<and>
      mp_want_ack packet \<and> mp_hop_limit packet = 7 \<and> mp_portnum packet = TEXT_MESSAGE_APP \<and>
      utf8_encode (take 200 text) = Inr (mp_payload packet) \<and>
      build_frame (to_radio_bytes pb2 packet) = Inr frame \<and>
      build_frame (from_radio_bytes pb2 packet) = Inr client_frame \<and>
      add_data new_parser frame = ([(frame, to_radio_bytes pb2 packet)], \<lparr>buffer = []\<rparr>) \<and>
      add_data new_parser client_frame =
        ([(client_frame, from_radio_bytes pb2 packet)], \<lparr>buffer = []\<rparr>)"
proof -
  from scalar obtain body where body: "utf8_encode (take 200 text) = Inr body"
    using utf8_encode_scalar by blast
  let ?ch = "case channel of Some c \<Rightarrow> c | None \<Rightarrow> channel_index"
  let ?id = "generate_packet_id draw"
  let ?pkt = "make_packet (word_of_int ?id) (word_of_int ?ch) body"
  let ?up = "to_radio_bytes pb2 ?pkt"
  let ?down = "from_radio_bytes pb2 ?pkt"
  have idr: "0 \<le> ?id" "?id < 2 ^ 32"
    using generate_packet_id_range [of draw] by simp_all
  have sid: "set_uint32 ?id = Inr (word_of_int ?id)" and uid: "uint (word_of_int ?id :: 32 word) = ?id"
    using idr by (rule uint_set_uint32)+
  have sch: "set_uint32 ?ch = Inr (word_of_int ?ch)" and uch: "uint (word_of_int ?ch :: 32 word) = ?ch"
    using in_range by (rule uint_set_uint32)+
  have nz: "(word_of_int ?id :: 32 word) \<noteq> 0"
  proof
    assume "(word_of_int ?id :: 32 word) = 0"
    then have "uint (word_of_int ?id :: 32 word) = 0" by simp
    with uid generate_packet_id_range(1) [of draw] show False by simp
  qed
  from fits_up body have lu: "length ?up \<le> 65535" by blast
  from fits_down body have ld: "length ?down \<le> 65535" by blast
  have bu: "build_frame ?up = Inr (framed ?up)" using lu by (rule build_frame_framed)
  have bd: "build_frame ?down = Inr (framed ?down)" using ld by (rule build_frame_framed)
  have run: "send_ai_response (Some pb2) channel_index draw text channel =
      [SendToRadio (framed ?up), BroadcastToClients (framed ?down)]"
    by (simp add: send_ai_response_def sid sch body bu bd Let_def)
  have pu: "add_data new_parser (framed ?up) = ([(framed ?up, ?up)], \<lparr>buffer = []\<rparr>)"
    using loop_framed [OF lu] by (simp add: add_data_def new_parser_def)
  have pd: "add_data new_parser (framed ?down) = ([(framed ?down, ?down)], \<lparr>buffer = []\<rparr>)"
    using loop_framed [OF ld] by (simp add: add_data_def new_parser_def)
  have fields: "mp_id ?pkt = word_of_int ?id" "mp_to ?pkt = 0xFFFFFFFF"
    "mp_channel ?pkt = word_of_int ?ch"
    "mp_want_ack ?pkt" "mp_hop_limit ?pkt = 7" "mp_portnum ?pkt = TEXT_MESSAGE_APP"
    "mp_payload ?pkt = body"
    by (simp_all add: make_packet_def)
  show ?thesis
    apply (rule exI [of _ ?pkt])
    apply (rule exI [of _ "framed ?up"])
    apply (rule exI [of _ "framed ?down"])
    using run pu pd bu bd fields uid uch nz body by simp
qed

theorem response_injection_witness:
  "send_ai_response
     (Some \<lparr>to_radio_bytes = (\<lambda>packet. 0x0A # mp_payload packet),
            from_radio_bytes = (\<lambda>packet. 0x12 # mp_payload packet)\<rparr>)
     2 7 (lit ''hi'') None =
   [SendToRadio [0x94, 0xC3, 0x00, 0x03, 0x0A, 0x68, 0x69],
    BroadcastToClients [0x94, 0xC3, 0x00, 0x03, 0x12, 0x68, 0x69]]"
proof -
  let ?pb = "\<lparr>to_radio_bytes = (\<lambda>packet. 0x0A # mp_payload packet),
              from_radio_bytes = (\<lambda>packet. 0x12 # mp_payload packet)\<rparr>"
  have sc: "\<forall>c\<in>set (take 200 (lit ''hi'')). is_scalar c"
    by (simp add: lit_def is_scalar_def)
  have enc: "utf8_encode (take 200 (lit ''hi'')) = Inr [0x68, 0x69]"
    by (simp add: lit_def utf8_char_def)
  have up: "\<forall>body. utf8_encode (take 200 (lit ''hi'')) = Inr body \<longrightarrow>
      length (to_radio_bytes ?pb (make_packet (word_of_int (generate_packet_id 7))
        (word_of_int (case None of Some c \<Rightarrow> c | None \<Rightarrow> 2)) body)) \<le> 65535"
    by (simp add: enc make_packet_def)
  have down: "\<forall>body. utf8_encode (take 200 (lit ''hi'')) = Inr body \<longrightarrow>
      length (from_radio_bytes ?pb (make_packet (word_of_int (generate_packet_id 7))
        (word_of_int (case None of Some c \<Rightarrow> c | None \<Rightarrow> 2)) body)) \<le> 65535"
    by (simp add: enc make_packet_def)
  have "(0::int) \<le> (case None of Some c \<Rightarrow> c | None \<Rightarrow> 2)"
    "(case None of Some c \<Rightarrow> c | None \<Rightarrow> 2) < (2::int) ^ 32" by simp_all
  from response_injection [OF this sc up down]
  obtain packet frame client_frame where
    run: "send_ai_response (Some ?pb) 2 7 (lit ''hi'') None =
            [SendToRadio frame, BroadcastToClients client_frame]"
    and pay: "utf8_encode (take 200 (lit ''hi'')) = Inr (mp_payload packet)"
    and bf: "build_frame (to_radio_bytes ?pb packet) = Inr frame"
    and bc: "build_frame (from_radio_bytes ?pb packet) = Inr client_frame"
    by blast
  from pay enc have p: "mp_payload packet = [0x68, 0x69]" by simp
  from bf p have "frame = [0x94, 0xC3, 0x00, 0x03, 0x0A, 0x68, 0x69]"
    by (simp add: build_frame_def pack_H_def MESHTASTIC_MAGIC_def)
  moreover from bc p have "client_frame = [0x94, 0xC3, 0x00, 0x03, 0x12, 0x68, 0x69]"
    by (simp add: build_frame_def pack_H_def MESHTASTIC_MAGIC_def)
  ultimately show ?thesis using run by simp
qed

section \<open>Properties of the generator client\<close>

lemma length_py_rstrip: "length (py_rstrip s) \<le> length s"
  using length_dropWhile_le [of py_isspace "rev s"] by (simp add: py_rstrip_def)

lemma length_py_strip: "length (py_strip s) \<le> length s"
proof -
  have "length (py_strip s) \<le> length (py_lstrip s)"
    unfolding py_strip_def by (rule length_py_rstrip)
  also have "\<dots> \<le> length s" by (simp add: py_lstrip_def length_dropWhile_le)
  finally show ?thesis .
qed

lemma length_py_join_Cons:
  "length (py_join sep (x # xs)) \<le> length x + length sep + length (py_join sep xs)"
  by (cases xs) simp_all

lemma length_join_split:
  "length (py_join [sp] (split_ws cur s)) \<le> length cur + length s"
proof (induction s arbitrary: cur)
  case Nil
  then show ?case by simp
next
  case (Cons c s)
  show ?case
  proof (cases "py_isspace c")
    case False
    with Cons [of "cur @ [c]"] show ?thesis by simp
  next
    case True
    show ?thesis
    proof (cases "cur = []")
      case True
      with \<open>py_isspace c\<close> Cons [of "[]"] show ?thesis by simp
    next
      case False
      have "length (py_join [sp] (cur # split_ws [] s)) \<le>
          length cur + length [sp] + length (py_join [sp] (split_ws [] s))"
        by (rule length_py_join_Cons)
      also have "\<dots> \<le> length cur + 1 + length s"
        using Cons [of "[]"] by simp
      finally show ?thesis using False \<open>py_isspace c\<close> by simp
    qed
  qed
qed

lemma length_clean_whitespace: "length (clean_whitespace s) \<le> length s"
  using length_join_split [of 32 "[]" s] by (simp add: clean_whitespace_def py_split_def lit_def)

lemma find_rev_upt_Some:
  "List.find P (rev [0..<n]) = Some i \<longleftrightarrow> i < n \<and> P i \<and> (\<forall>j. i < j \<and> j < n \<longrightarrow> \<not> P j)"
proof (induction n)
  case 0
  then show ?case by simp
next
  case (Suc n)
  show ?case
  proof (cases "P n")
    case True
    then show ?thesis by (auto simp: less_Suc_eq) 
  next
    case False
    with Suc show ?thesis by (auto simp: less_Suc_eq)
  qed
qed

lemma find_rev_upt_None: "List.find P (rev [0..<n]) = None \<longleftrightarrow> (\<forall>j<n. \<not> P j)"
  by (simp add: find_None_iff)

lemma rfind_range: "j < Suc m - k \<longleftrightarrow> j + k \<le> (m::nat)"
  by arith

lemma py_rfind_Some:
  "py_rfind s p 0 e = Some i \<longleftrightarrow>
     i + length p \<le> min e (length s) \<and> py_slice s i (i + length p) = p \<and>
     (\<forall>j. i < j \<and> j + length p \<le> min e (length s) \<longrightarrow> py_slice s j (j + length p) \<noteq> p)"
  unfolding py_rfind_def find_rev_upt_Some rfind_range by auto

lemma py_rfind_None:
  "py_rfind s p 0 e = None \<longleftrightarrow>
     (\<forall>j. j + length p \<le> min e (length s) \<longrightarrow> py_slice s j (j + length p) \<noteq> p)"
  unfolding py_rfind_def find_rev_upt_None rfind_range by auto


lemma strip_patterns:
  "py_strip (lit ''. '') = lit ''.''" "py_strip (lit ''! '') = lit ''!''"
  "py_strip (lit ''? '') = lit ''?''" "py_strip [10] = []" "py_strip (lit '' - '') = lit ''-''"
  by (simp_all add: py_strip_def py_lstrip_def py_rstrip_def py_isspace_def lit_def)

lemma pattern_cases:
  assumes "p \<in> set boundary_patterns"
  obtains "p = lit ''. ''" | "p = lit ''! ''" | "p = lit ''? ''" | "p = [10]" | "p = lit '' - ''"
  using assms by (auto simp: boundary_patterns_def)

lemma pattern_strip_le:
  assumes "p \<in> set boundary_patterns"
  shows "length (py_strip p) \<le> 1" and "length (py_strip p) \<le> length p" and "p \<noteq> []"
  using assms by (cases rule: pattern_cases; simp add: strip_patterns; simp add: lit_def)+

lemma pattern_heads:
  assumes "p \<in> set boundary_patterns" "q \<in> set boundary_patterns" "hd p = hd q"
  shows "p = q"
  using assms by (auto simp: boundary_patterns_def lit_def)

lemma boundary_head:
  assumes "boundary_at s p i"
  shows "hd p = s ! i"
proof -
  from assms have p: "p \<noteq> []" and sl: "take (length p) (drop i s) = p"
    by (auto simp: boundary_at_def py_slice_def pattern_strip_le)
  from p sl have "drop i s \<noteq> []" by auto
  then have i: "i < length s" by simp
  from p have "0 < length p" by simp
  then have "hd (take (length p) (drop i s)) = hd (drop i s)" by (rule hd_take)
  with sl i show ?thesis by (simp add: hd_drop_conv_nth)
qed

lemma in_candidates:
  "x \<in> set (trim_candidates s e ps) \<longleftrightarrow>
     (\<exists>p\<in>set ps. \<exists>idx. py_rfind s p 0 e = Some idx \<and> x = idx + length (py_strip p))"
  unfolding trim_candidates_def by (induction ps) (auto split: option.splits)

lemma rfind_boundary:
  assumes "max_chars < length s" "p \<in> set boundary_patterns"
    and "py_rfind s p 0 max_chars = Some idx"
  shows "boundary_at s p idx"
  using assms by (simp add: py_rfind_Some boundary_at_def)

lemma candidates_le:
  assumes "max_chars < length s" "x \<in> set (trim_candidates s max_chars boundary_patterns)"
  shows "x \<le> max_chars"
proof -
  from assms(2) obtain p idx where p: "p \<in> set boundary_patterns"
    and r: "py_rfind s p 0 max_chars = Some idx" and x: "x = idx + length (py_strip p)"
    by (auto simp: in_candidates)
  from assms(1) p r have "idx + length p \<le> max_chars"
    by (simp add: py_rfind_Some)
  with pattern_strip_le(2) [OF p] x show ?thesis by simp
qed

lemma trim_length: "length (trim_to_max_chars s0) \<le> max_chars"
proof (cases "length (py_strip s0) \<le> max_chars")
  case True
  then show ?thesis by (simp add: trim_to_max_chars_def)
next
  case False
  then have long: "max_chars < length (py_strip s0)" by simp
  show ?thesis
  proof (cases "trim_candidates (py_strip s0) max_chars boundary_patterns")
    case Nil
    have "length (py_rstrip (take max_chars (py_strip s0))) \<le> length (take max_chars (py_strip s0))"
      by (rule length_py_rstrip)
    with False Nil show ?thesis by (simp add: trim_to_max_chars_def)
  next
    case (Cons c cs)
    have "fold max cs c = Max (set (c # cs))" by (rule Max.set_eq_fold [symmetric])
    also have "\<dots> \<in> set (c # cs)" by (rule Max_in) simp_all
    finally have "fold max cs c \<le> max_chars"
      using candidates_le [OF long] Cons by simp
    moreover have "length (py_strip (take (fold max cs c) (py_strip s0))) \<le>
        length (take (fold max cs c) (py_strip s0))"
      by (rule length_py_strip)
    ultimately show ?thesis using False Cons by (simp add: trim_to_max_chars_def)
  qed
qed

lemma trim_hard_cut:
  assumes long: "max_chars < length (py_strip s0)"
    and none: "\<And>p i. \<not> boundary_at (py_strip s0) p i"
  shows "trim_to_max_chars s0 = py_rstrip (take max_chars (py_strip s0))"
proof -
  have "trim_candidates (py_strip s0) max_chars boundary_patterns = []"
  proof (rule ccontr)
    assume "trim_candidates (py_strip s0) max_chars boundary_patterns \<noteq> []"
    then obtain x where "x \<in> set (trim_candidates (py_strip s0) max_chars boundary_patterns)"
      by (cases "trim_candidates (py_strip s0) max_chars boundary_patterns") auto
    then obtain p idx where "p \<in> set boundary_patterns"
      "py_rfind (py_strip s0) p 0 max_chars = Some idx"
      by (auto simp: in_candidates)
    with long have "boundary_at (py_strip s0) p idx" by (simp add: rfind_boundary)
    with none show False by blast
  qed
  with long show ?thesis by (simp add: trim_to_max_chars_def)
qed

lemma trim_latest:
  assumes long: "max_chars < length (py_strip s0)"
    and at: "boundary_at (py_strip s0) p i"
    and latest: "\<And>p' i'. boundary_at (py_strip s0) p' i' \<Longrightarrow> i' \<le> i"
  shows "trim_to_max_chars s0 = py_strip (take (i + length (py_strip p)) (py_strip s0))"
proof -
  let ?s = "py_strip s0"
  let ?cands = "trim_candidates ?s max_chars boundary_patterns"
  let ?m = "i + length (py_strip p)"
  from at have p: "p \<in> set boundary_patterns" by (simp add: boundary_at_def)
  have "py_rfind ?s p 0 max_chars = Some i"
  proof -
    have "py_slice ?s j (j + length p) \<noteq> p" if "i < j" "j + length p \<le> max_chars" for j
    proof
      assume "py_slice ?s j (j + length p) = p"
      with p that(2) have "boundary_at ?s p j" by (simp add: boundary_at_def)
      then have "j \<le> i" by (rule latest)
      with that(1) show False by simp
    qed
    with at long show ?thesis by (auto simp: py_rfind_Some boundary_at_def)
  qed
  with p have m_in: "?m \<in> set ?cands" by (auto simp: in_candidates)
  have m_max: "x \<le> ?m" if "x \<in> set ?cands" for x
  proof -
    from that obtain q idx where q: "q \<in> set boundary_patterns"
      and r: "py_rfind ?s q 0 max_chars = Some idx" and x: "x = idx + length (py_strip q)"
      by (auto simp: in_candidates)
    from long q r have bq: "boundary_at ?s q idx" by (rule rfind_boundary)
    then have le: "idx \<le> i" by (rule latest)
    show ?thesis
    proof (cases "idx = i")
      case True
      with bq at have "hd q = hd p" by (simp add: boundary_head)
      with q p have "q = p" by (rule pattern_heads)
      with True x show ?thesis by simp
    next
      case False
      with le have "idx < i" by simp
      with pattern_strip_le(1) [OF q] x show ?thesis by simp
    qed
  qed
  from m_in obtain c cs where cons: "?cands = c # cs" by (cases ?cands) auto
  have "fold max cs c = Max (set (c # cs))" by (rule Max.set_eq_fold [symmetric])
  also have "\<dots> = ?m"
    using m_in m_max unfolding cons by (intro Max_eqI) auto
  finally show ?thesis using long cons by (simp add: trim_to_max_chars_def)
qed

lemma ensure_le: "length (ensure_length_bounds send_message base first) \<le> max_chars"
  using trim_length
  by (auto simp: ensure_length_bounds_def Let_def split: sum.splits)

lemma chat_attempts_le:
  "chat_attempts generate user_id cp attempts = Inr reply \<Longrightarrow> length reply \<le> max_chars"
proof (induction attempts)
  case Nil
  then show ?case by (auto simp: fallback_reply_def lit_def max_chars_def)
next
  case (Cons a attempts)
  then show ?case
    by (auto simp: Let_def ensure_le split: sum.splits if_splits)
qed

lemma chat_respond_le:
  "chat_respond client generate user_id prompt = Inr reply \<Longrightarrow> length reply \<le> max_chars"
  by (auto simp: chat_respond_def chat_attempts_le split: if_splits)

lemma split_ws_word:
  assumes "\<forall>c\<in>set w. \<not> py_isspace c"
  shows "split_ws cur (w @ rest) = split_ws (cur @ w) rest"
  using assms by (induction w arbitrary: cur) simp_all

lemma strip_id:
  assumes "s \<noteq> []" "\<not> py_isspace (hd s)" "\<not> py_isspace (last s)"
  shows "py_strip s = s"
proof -
  from assms have l: "py_lstrip s = s" by (cases s) (simp_all add: py_lstrip_def)
  from assms have "rev s \<noteq> []" "\<not> py_isspace (hd (rev s))" by (simp_all add: hd_rev)
  then have "dropWhile py_isspace (rev s) = rev s" by (cases "rev s") simp_all
  then show ?thesis by (simp add: py_strip_def l py_rstrip_def)
qed

lemma long_reply_nth:
  "long_reply ! 0 = 72" "long_reply ! 1 = 105" "long_reply ! 2 = 46" "long_reply ! 3 = 32"
  "4 \<le> i \<Longrightarrow> i < 704 \<Longrightarrow> long_reply ! i = 97"
  by (simp_all add: long_reply_def lit_def nth_append)

lemma long_reply_length: "length long_reply = 704"
  by (simp add: long_reply_def lit_def)

lemma long_reply_strip: "py_strip long_reply = long_reply"
proof (rule strip_id)
  show "long_reply \<noteq> []" by (simp add: long_reply_def lit_def)
  show "\<not> py_isspace (hd long_reply)" by (simp add: long_reply_def lit_def py_isspace_def)
  show "\<not> py_isspace (last long_reply)" by (simp add: long_reply_def py_isspace_def)
qed

lemma long_reply_clean: "clean_whitespace long_reply = long_reply"
proof -
  have a: "\<forall>c\<in>set (lit ''Hi.''). \<not> py_isspace c" by (simp add: lit_def py_isspace_def)
  have b: "\<forall>c\<in>set (replicate 700 97). \<not> py_isspace c" by (simp add: py_isspace_def)
  have "long_reply = lit ''Hi.'' @ 32 # replicate 700 97 @ []"
    by (simp add: long_reply_def lit_def)
  then have "split_ws [] long_reply = split_ws ([] @ lit ''Hi.'') (32 # replicate 700 97 @ [])"
    using split_ws_word [OF a, of "[]" "32 # replicate 700 97 @ []"] by simp
  also have "\<dots> = lit ''Hi.'' # split_ws [] (replicate 700 97 @ [])"
    by (simp add: py_isspace_def lit_def)
  also have "split_ws [] (replicate 700 97 @ []) = split_ws ([] @ replicate 700 97) []"
    by (rule split_ws_word [OF b])
  also have "\<dots> = [replicate 700 97]" by simp
  finally show ?thesis
    by (simp add: clean_whitespace_def py_split_def long_reply_def lit_def)
qed

lemma long_reply_boundary: "boundary_at long_reply (lit ''. '') 2"
proof -
  have "drop 2 long_reply = 46 # 32 # replicate 700 97"
    by (simp add: long_reply_def lit_def)
  then show ?thesis
    by (simp add: boundary_at_def boundary_patterns_def max_chars_def py_slice_def lit_def)
qed

lemma long_reply_latest:
  assumes "boundary_at long_reply p i"
  shows "i \<le> 2"
proof (rule ccontr)
  assume "\<not> i \<le> 2"
  then have i: "3 \<le> i" by simp
  from assms have p: "p \<in> set boundary_patterns" and le: "i + length p \<le> 600"
    and sl: "take (length p) (drop i long_reply) = p"
    by (simp_all add: boundary_at_def max_chars_def py_slice_def)
  from assms have hd: "hd p = long_reply ! i" by (rule boundary_head)
  show False
  proof (cases "i = 3")
    case False
    with i le have "4 \<le> i" "i < 704" by simp_all
    then have "long_reply ! i = 97" by (rule long_reply_nth)
    with hd p show False by (auto simp: boundary_patterns_def lit_def)
  next
    case True
    with hd have "hd p = 32" by (simp add: long_reply_nth)
    with p have pd: "p = lit '' - ''" by (auto simp: boundary_patterns_def lit_def)
    have "drop 3 long_reply = 32 # replicate 700 97" by (simp add: long_reply_def lit_def)
    with sl True pd have "take 3 (32 # replicate 700 (97::nat)) = lit '' - ''"
      by (simp add: lit_def)
    then show False by (simp add: lit_def numeral_3_eq_3)
  qed
qed

lemma long_reply_trim: "trim_to_max_chars long_reply = lit ''Hi.''"
proof -
  have long: "max_chars < length (py_strip long_reply)"
    by (simp add: long_reply_strip long_reply_length max_chars_def)
  have "trim_to_max_chars long_reply =
      py_strip (take (2 + length (py_strip (lit ''. ''))) (py_strip long_reply))"
    using long
  proof (rule trim_latest)
    show "boundary_at (py_strip long_reply) (lit ''. '') 2"
      by (simp add: long_reply_strip long_reply_boundary)
    show "i' \<le> 2" if "boundary_at (py_strip long_reply) p' i'" for p' i'
      using that long_reply_latest by (simp add: long_reply_strip)
  qed
  also have "take (2 + length (py_strip (lit ''. ''))) (py_strip long_reply) = lit ''Hi.''"
    by (simp add: strip_patterns long_reply_strip) (simp add: long_reply_def lit_def)
  also have "py_strip (lit ''Hi.'') = lit ''Hi.''"
    by (simp add: py_strip_def py_lstrip_def py_rstrip_def py_isspace_def lit_def)
  finally show ?thesis .
qed

lemma clean_word:
  assumes "w \<noteq> []" "\<forall>c\<in>set w. \<not> py_isspace c"
  shows "clean_whitespace w = w"
proof -
  have "split_ws [] (w @ []) = split_ws ([] @ w) []" using assms(2) by (rule split_ws_word)
  with assms(1) show ?thesis by (simp add: clean_whitespace_def py_split_def)
qed

text \<open>
  The length bound and the trimming rule of the generator client. Every reply that \<^verbatim>\<open>chat_respond\<close> returns
  has at most 600 characters, also after whitespace normalisation. When the stripped text
  exceeds 600 characters, \<^verbatim>\<open>_trim_to_max_chars\<close> returns at most 600 characters: with no
  boundary \<open>. \<close>, \<open>! \<close>, \<open>? \<close>, newline or \<open> - \<close> inside the first 600 characters it is
  the first 600 characters, right-stripped; otherwise it is the text up to the latest such
  boundary (up to and including the mark of \<open>. \<close>, \<open>! \<close>, \<open>? \<close>; up to the newline; up
  to the blank before the dash), stripped.
\<close>

theorem upper_bound_and_trimming:
  "(chat_respond client generate user_id prompt = Inr reply \<longrightarrow>
      length (clean_whitespace reply) \<le> 600 \<and> length reply \<le> 600) \<and>
   (600 < length (py_strip s) \<longrightarrow>
      length (trim_to_max_chars s) \<le> 600 \<and>
      ((\<forall>p i. \<not> boundary_at (py_strip s) p i) \<longrightarrow>
         trim_to_max_chars s = py_rstrip (take 600 (py_strip s))) \<and>
      (\<forall>p i. boundary_at (py_strip s) p i \<and>
              (\<forall>p' i'. boundary_at (py_strip s) p' i' \<longrightarrow> i' \<le> i) \<longrightarrow>
         trim_to_max_chars s = py_strip (take (i + length (py_strip p)) (py_strip s))))"
proof (intro conjI impI allI)
  assume "chat_respond client generate user_id prompt = Inr reply"
  then show len: "length reply \<le> 600" using chat_respond_le by (simp add: max_chars_def)
  then show "length (clean_whitespace reply) \<le> 600"
    using length_clean_whitespace [of reply] by simp
next
  show "length (trim_to_max_chars s) \<le> 600"
    using trim_length [of s] by (simp add: max_chars_def)
next
  assume "600 < length (py_strip s)" "\<forall>p i. \<not> boundary_at (py_strip s) p i"
  then show "trim_to_max_chars s = py_rstrip (take 600 (py_strip s))"
    using trim_hard_cut [of s] by (simp add: max_chars_def)
next
  fix p i
  assume "600 < length (py_strip s)"
    and "boundary_at (py_strip s) p i \<and>
      (\<forall>p' i'. boundary_at (py_strip s) p' i' \<longrightarrow> i' \<le> i)"
  then show "trim_to_max_chars s = py_strip (take (i + length (py_strip p)) (py_strip s))"
    using trim_latest [of s p i] by (simp add: max_chars_def)
qed

text \<open>
  In \<^verbatim>\<open>chat_respond\<close> the expansion request always raises, so
  \<^verbatim>\<open>_ensure_length_bounds\<close> returns the normalised first text, trimmed when it is longer
  than \<^verbatim>\<open>max_chars\<close>.
\<close>

lemma expansion_never_applied:
  "ensure_length_bounds (str_send_message user_id) base_prompt first_try_text =
     (if max_chars < length (clean_whitespace first_try_text)
      then trim_to_max_chars (clean_whitespace first_try_text)
      else clean_whitespace first_try_text)"
  by (simp add: ensure_length_bounds_def Let_def str_send_message_def)

lemma chat_respond_yes:
  "chat_respond True (\<lambda>attempt prompt. Inr (lit ''Yes.'')) user_id prompt = Inr (lit ''Yes.'')"
proof -
  have yes: "clean_whitespace (lit ''Yes.'') = lit ''Yes.''"
    by (rule clean_word) (simp_all add: lit_def py_isspace_def)
  have syes: "py_strip (lit ''Yes.'') = lit ''Yes.''"
    by (rule strip_id) (simp_all add: lit_def py_isspace_def)
  have ne: "lit ''Yes.'' \<noteq> []" and len: "length (lit ''Yes.'') = 4"
    by (simp_all add: lit_def)
  have e: "ensure_length_bounds (str_send_message u) cp (lit ''Yes.'') = lit ''Yes.''" for u cp
    by (simp add: expansion_never_applied yes len max_chars_def)
  have "[0..<max_retries] = [0, 1, 2]" by (simp add: max_retries_def upt_rec)
  then show ?thesis by (simp add: chat_respond_def syes ne e)
qed

text \<open>
  Claim C7 on the code. \<^verbatim>\<open>chat_respond\<close> hands \<^verbatim>\<open>user_id\<close>, a \<^verbatim>\<open>str\<close>, to
  \<^verbatim>\<open>_ensure_length_bounds\<close> as the chat, so the expansion request raises for every user
  and every first text: a generation of 4 characters, \<open>Yes.\<close>, is returned as it is, no
  expansion is made and the reply is shorter than 200 characters.
\<close>

theorem short_reply_not_expanded:
  "chat_respond True (\<lambda>attempt prompt. Inr (lit ''Yes.'')) (lit ''client'') (lit ''hi'') =
     Inr (lit ''Yes.'') \<and>
   length (lit ''Yes.'') = 4 \<and>
   isl (str_send_message user_id expand_prompt) \<and>
   ensure_length_bounds (str_send_message user_id) base_prompt first_try_text =
     (if max_chars < length (clean_whitespace first_try_text)
      then trim_to_max_chars (clean_whitespace first_try_text)
      else clean_whitespace first_try_text)"
  using chat_respond_yes [of "lit ''client''" "lit ''hi''"] expansion_never_applied
  by (simp add: str_send_message_def) (simp add: lit_def)

end
